theory Spec2Isabelle
  imports Complex_Main "HOL-Library.Sublist"
begin

section \<open>Values, documents and citations\<close>

text \<open>
  Python strings are modelled as \<open>string\<close>; one \<open>char\<close> stands for one character of
  the Python string, so \<open>length\<close> is Python's \<open>len\<close> and \<open>take n\<close> is the slice
  \<open>[:n]\<close>. Characters outside ASCII that occur in the program's own literals are written
  as their UTF-8 bytes.

  Metadata values are the two kinds the ingestion module stores: strings and integers.
\<close>

datatype pyval = PStr string | PInt int

text \<open>Python's truth test of a value: the empty string and the integer zero are false.\<close>

fun truthy :: "pyval \<Rightarrow> bool" where
  "truthy (PStr s) = (s \<noteq> [])"
| "truthy (PInt i) = (i \<noteq> 0)"

definition digit_char :: "nat \<Rightarrow> char" where
  "digit_char d = ''0123456789'' ! d"

fun str_nat :: "nat \<Rightarrow> string" where
  "str_nat n = (if n < 10 then [digit_char n] else str_nat (n div 10) @ [digit_char (n mod 10)])"

declare str_nat.simps [simp del]

text \<open>\<open>str(i)\<close> of a Python integer: decimal digits, with a minus sign when negative.\<close>

definition str_int :: "int \<Rightarrow> string" where
  "str_int i = (if i < 0 then CHR ''-'' # str_nat (nat (- i)) else str_nat (nat i))"

text \<open>What an f-string substitutes for a value.\<close>

fun py_str :: "pyval \<Rightarrow> string" where
  "py_str (PStr s) = s"
| "py_str (PInt i) = str_int i"

text \<open>
  \<open>langchain_core.documents.Document\<close>: the text of a chunk and its metadata dictionary
  (an association list read with \<open>map_of\<close>).
\<close>

type_synonym metadata = "(string \<times> pyval) list"

record document =
  page_content :: string
  metadata :: metadata

text \<open>\<open>d.get(key, default)\<close>.\<close>

definition md_get :: "metadata \<Rightarrow> string \<Rightarrow> pyval \<Rightarrow> pyval" where
  "md_get m k d = (case map_of m k of None \<Rightarrow> d | Some v \<Rightarrow> v)"

text \<open>
  The citation dictionary built by \<open>_extract_sources\<close>: the keys \<open>source\<close>, \<open>type\<close> and
  \<open>snippet\<close> are always present, \<open>page\<close> and \<open>chunk\<close> only when their value is true.
\<close>

record citation =
  c_source :: pyval
  c_type :: pyval
  c_page :: "pyval option"
  c_chunk :: "pyval option"
  c_snippet :: string

section \<open>rag\_chain.py\<close>

subsection \<open>Citation extraction\<close>

text \<open>
  \<open>doc.page_content[:150] + "..." if len(doc.page_content) > 150 else doc.page_content\<close>:
  the conditional expression binds weaker than \<open>+\<close>, so the ellipsis belongs to the
  first branch only.
\<close>

definition snippet_of :: "string \<Rightarrow> string" where
  "snippet_of content =
     (if length content > 150 then take 150 content @ ''...'' else content)"

text \<open>The deduplication key \<open>f"{source}-p{page}-c{chunk}"\<close>.\<close>

definition cite_key :: "document \<Rightarrow> string" where
  "cite_key doc =
     (let source = md_get (metadata doc) ''source'' (PStr ''Unknown'');
          page = md_get (metadata doc) ''page'' (PStr '''');
          chunk = md_get (metadata doc) ''chunk'' (PStr '''')
      in py_str source @ ''-p'' @ py_str page @ ''-c'' @ py_str chunk)"

definition citation_of :: "document \<Rightarrow> citation" where
  "citation_of doc =
     (let source = md_get (metadata doc) ''source'' (PStr ''Unknown'');
          page = md_get (metadata doc) ''page'' (PStr '''');
          chunk = md_get (metadata doc) ''chunk'' (PStr '''');
          doc_type = md_get (metadata doc) ''type'' (PStr '''')
      in \<lparr> c_source = source, c_type = doc_type,
           c_page = (if truthy page then Some page else None),
           c_chunk = (if truthy chunk then Some chunk else None),
           c_snippet = snippet_of (page_content doc) \<rparr>)"

text \<open>
  The loop of \<open>_extract_sources\<close>, with its two variables: the list \<open>sources\<close> and the
  set \<open>seen\<close>.
\<close>

fun extract_loop :: "document list \<Rightarrow> citation list \<Rightarrow> string set \<Rightarrow> citation list" where
  "extract_loop [] sources seen = sources"
| "extract_loop (doc # rest) sources seen =
     (let key = cite_key doc
      in if key \<notin> seen
         then extract_loop rest (sources @ [citation_of doc]) (insert key seen)
         else extract_loop rest sources seen)"

definition extract_sources :: "document list \<Rightarrow> citation list" where
  "extract_sources retrieved_docs = extract_loop retrieved_docs [] {}"

subsection \<open>History windowing\<close>

text \<open>A chat message as sent to the model: \<open>{"role": ..., "content": ...}\<close>.\<close>

record message =
  role :: string
  content :: string

text \<open>The slice \<open>xs[start:]\<close> of Python, for a start of either sign.\<close>

definition py_slice_from :: "'a list \<Rightarrow> int \<Rightarrow> 'a list" where
  "py_slice_from xs start =
     (if start < 0 then drop (nat (int (length xs) + start)) xs else drop (nat start) xs)"

fun history_loop :: "(string \<times> string) list \<Rightarrow> message list \<Rightarrow> message list" where
  "history_loop [] messages = messages"
| "history_loop ((r, c) # rest) messages =
     (if r = ''user'' then history_loop rest (messages @ [\<lparr> role = ''user'', content = c \<rparr>])
      else if r = ''assistant''
        then history_loop rest (messages @ [\<lparr> role = ''assistant'', content = c \<rparr>])
      else history_loop rest messages)"

definition format_chat_history :: "(string \<times> string) list \<Rightarrow> int \<Rightarrow> message list" where
  "format_chat_history chat_history max_turns =
     (let recent = py_slice_from chat_history (- (max_turns * 2))
      in history_loop recent [])"

text \<open>
  For stating what the window keeps: a history entry as the message it becomes, and the
  test the loop applies to its role.
\<close>

definition turn_message :: "string \<times> string \<Rightarrow> message" where
  "turn_message t = \<lparr> role = fst t, content = snd t \<rparr>"

definition chat_role :: "string \<times> string \<Rightarrow> bool" where
  "chat_role t = (fst t = ''user'' \<or> fst t = ''assistant'')"

subsection \<open>Stating the deduplication\<close>

text \<open>
  The key of the data model: the triple (source, page, chunk index) of a retrieved
  chunk, each component read as \<open>_extract_sources\<close> reads it.
\<close>

definition doc_triple :: "document \<Rightarrow> pyval \<times> pyval \<times> pyval" where
  "doc_triple doc =
     (md_get (metadata doc) ''source'' (PStr ''Unknown''),
      md_get (metadata doc) ''page'' (PStr ''''),
      md_get (metadata doc) ''chunk'' (PStr ''''))"

text \<open>
  The first-seen occurrences of a list under a key, in the order of the list: the
  element at position \<open>i\<close> is kept when no earlier position has its key.
\<close>

definition first_seen :: "('a \<Rightarrow> 'k) \<Rightarrow> 'a list \<Rightarrow> 'a list" where
  "first_seen key xs =
     map (\<lambda>i. xs ! i) (filter (\<lambda>i. key (xs ! i) \<notin> key ` set (take i xs)) [0..<length xs])"

text \<open>The elements a pass with a set of seen keys lets through.\<close>

fun unseen :: "('a \<Rightarrow> 'k) \<Rightarrow> 'k set \<Rightarrow> 'a list \<Rightarrow> 'a list" where
  "unseen key S [] = []"
| "unseen key S (x # xs) =
     (if key x \<in> S then unseen key S xs else x # unseen key (insert (key x) S) xs)"

text \<open>
  Metadata as the ingestion module writes it: the source is a string, page and chunk
  are integers or absent (read as the empty string).
\<close>

definition int_or_absent :: "pyval \<Rightarrow> bool" where
  "int_or_absent v = (case v of PInt i \<Rightarrow> True | PStr s \<Rightarrow> s = [])"

definition is_str :: "pyval \<Rightarrow> bool" where
  "is_str v = (case v of PStr s \<Rightarrow> True | PInt i \<Rightarrow> False)"

definition wf_doc :: "document \<Rightarrow> bool" where
  "wf_doc doc =
     (is_str (md_get (metadata doc) ''source'' (PStr ''Unknown'')) \<and>
      int_or_absent (md_get (metadata doc) ''page'' (PStr '''')) \<and>
      int_or_absent (md_get (metadata doc) ''chunk'' (PStr '''')))"

definition numeric_char :: "char \<Rightarrow> bool" where
  "numeric_char c = (c \<in> set ''0123456789-'')"

text \<open>Three retrieved chunks of one PDF; the first two are the same chunk of page 1.\<close>

definition sky1 :: document where
  "sky1 = \<lparr> page_content = ''The sky is blue.'',
     metadata = [(''source'', PStr ''sky.pdf''), (''page'', PInt 1), (''chunk'', PInt 1),
       (''type'', PStr ''pdf'')] \<rparr>"

definition sky1' :: document where
  "sky1' = \<lparr> page_content = ''Blue is the sky.'',
     metadata = [(''source'', PStr ''sky.pdf''), (''page'', PInt 1), (''chunk'', PInt 1),
       (''type'', PStr ''pdf'')] \<rparr>"

definition sky2 :: document where
  "sky2 = \<lparr> page_content = ''Clouds are white.'',
     metadata = [(''source'', PStr ''sky.pdf''), (''page'', PInt 2), (''chunk'', PInt 1),
       (''type'', PStr ''pdf'')] \<rparr>"

subsection \<open>Prompt templates\<close>

text \<open>Characters that a string literal cannot hold are named.\<close>

definition newline :: string where
  "newline = [CHR 0x0A]"

definition dquote :: string where
  "dquote = [CHR 0x22]"

definition squote :: string where
  "squote = [CHR 0x27]"

text \<open>The warning sign U+26A0 U+FE0F and the cross mark U+274C, in UTF-8.\<close>

definition warning_sign :: string where
  "warning_sign = [CHR 0xE2, CHR 0x9A, CHR 0xA0, CHR 0xEF, CHR 0xB8, CHR 0x8F]"

definition cross_mark :: string where
  "cross_mark = [CHR 0xE2, CHR 0x9D, CHR 0x8C]"

definition MODEL_ID :: string where
  "MODEL_ID = ''meta-llama/Llama-3.2-3B-Instruct''"

definition STRICT_SYSTEM_PROMPT :: string where
  "STRICT_SYSTEM_PROMPT =
     ''You are a precise document assistant. Your ONLY job is to answer questions using the provided document context.''
     @ newline @ newline
     @ ''STRICT RULES:'' @ newline
     @ ''1. Answer ONLY based on the information in the '' @ dquote @ ''Document Context''
     @ dquote @ '' section below.'' @ newline
     @ ''2. If the answer is NOT found in the context, respond with: '' @ dquote
     @ warning_sign @ '' I don'' @ squote
     @ ''t have enough information in the uploaded documents to answer this question.''
     @ dquote @ newline
     @ ''3. NEVER use your general knowledge or make assumptions beyond what the documents state.''
     @ newline
     @ ''4. Always be specific and quote or reference the relevant parts of the documents.''
     @ newline
     @ ''5. When citing information, mention the source document name.''"

definition HYBRID_SYSTEM_PROMPT :: string where
  "HYBRID_SYSTEM_PROMPT =
     ''You are a knowledgeable assistant with access to uploaded documents. Your job is to provide helpful, accurate answers.''
     @ newline @ newline
     @ ''RULES:'' @ newline
     @ ''1. Use the provided '' @ dquote @ ''Document Context'' @ dquote
     @ '' as your PRIMARY source of information.'' @ newline
     @ ''2. If the document context contains relevant information, base your answer on it and cite the source.''
     @ newline
     @ ''3. If the document context is insufficient, you MAY supplement with your general knowledge, but clearly indicate when you are doing so by saying ''
     @ dquote @ ''Based on general knowledge:'' @ dquote @ '' or similar.'' @ newline
     @ ''4. Always prioritize document-grounded answers over general knowledge.'' @ newline
     @ ''5. When citing information from documents, mention the source document name.''"

subsection \<open>Context string\<close>

text \<open>\<open>sep.join(parts)\<close>.\<close>

fun py_join :: "string \<Rightarrow> string list \<Rightarrow> string" where
  "py_join sep [] = []"
| "py_join sep [x] = x"
| "py_join sep (x # y # ys) = x @ sep @ py_join sep (y # ys)"

text \<open>
  The loop of \<open>_build_context_string\<close> over \<open>enumerate(retrieved_docs, 1)\<close>, with the
  running index and the list \<open>context_parts\<close>.
\<close>

fun context_loop :: "document list \<Rightarrow> int \<Rightarrow> string list \<Rightarrow> string list" where
  "context_loop [] i context_parts = context_parts"
| "context_loop (doc # rest) i context_parts =
     (let source = md_get (metadata doc) ''source'' (PStr ''Unknown'');
          page = md_get (metadata doc) ''page'' (PStr '''');
          chunk = md_get (metadata doc) ''chunk'' (PStr '''');
          location = ''Source: '' @ py_str source;
          location = (if truthy page then location @ '', Page '' @ py_str page else location);
          location = (if truthy chunk then location @ '', Chunk '' @ py_str chunk else location)
      in context_loop rest (i + 1)
           (context_parts @
              [''['' @ str_int i @ ''] '' @ location @ newline @ page_content doc]))"

definition build_context_string :: "document list \<Rightarrow> string" where
  "build_context_string retrieved_docs =
     (if retrieved_docs = [] then ''No relevant documents found.''
      else py_join (newline @ newline @ ''---'' @ newline @ newline)
             (context_loop retrieved_docs 1 []))"

subsection \<open>Answer generation\<close>

text \<open>
  The keyword arguments of \<open>client.chat.completions.create\<close>. The temperature is the
  decimal literal of the source.
\<close>

record chat_request =
  q_model :: string
  q_messages :: "message list"
  q_max_tokens :: int
  q_temperature :: rat

text \<open>The returned dictionary \<open>{"answer": ..., "sources": ...}\<close>.\<close>

record answer_result =
  r_answer :: string
  r_sources :: "citation list"

text \<open>
  The inference client is outside the program. A call takes the request and the state
  \<open>'w\<close> of the world it talks to, and gives back that state and either the text of the
  exception it raised (\<open>Inl\<close>) or the contents of the messages of
  \<open>response.choices\<close> (\<open>Inr\<close>).
\<close>

type_synonym 'w chat_client = "chat_request \<Rightarrow> 'w \<Rightarrow> (string + string list) \<times> 'w"

definition error_prefix :: string where
  "error_prefix = cross_mark @ '' Error generating response: ''"

text \<open>
  \<open>generate_answer\<close>. Inside the \<open>try\<close> block are the call and the read of
  \<open>response.choices[0]\<close>, whose IndexError on an empty list is caught by the same
  handler.
\<close>

definition generate_answer ::
  "'w chat_client \<Rightarrow> string \<Rightarrow> document list \<Rightarrow> (string \<times> string) list option \<Rightarrow> string
     \<Rightarrow> 'w \<Rightarrow> answer_result \<times> 'w" where
  "generate_answer client question retrieved_docs chat_history mode w =
     (let chat_history = (case chat_history of None \<Rightarrow> [] | Some h \<Rightarrow> h);
          system_prompt =
            (if mode = ''strict'' then STRICT_SYSTEM_PROMPT else HYBRID_SYSTEM_PROMPT);
          context_string = build_context_string retrieved_docs;
          user_message = ''Document Context:'' @ newline @ context_string @ newline @ newline
            @ ''Question: '' @ question @ newline @ newline
            @ ''Please provide a detailed answer based on the above context.'';
          msgs = [\<lparr> role = ''system'', content = system_prompt \<rparr>];
          history_messages = format_chat_history chat_history 5;
          msgs = msgs @ history_messages;
          msgs = msgs @ [\<lparr> role = ''user'', content = user_message \<rparr>];
          (reply, w') = client \<lparr> q_model = MODEL_ID, q_messages = msgs, q_max_tokens = 1024,
              q_temperature = (if mode = ''strict'' then 0.3 else 0.5) \<rparr> w;
          ans = (case reply of
                   Inl e \<Rightarrow> error_prefix @ e
                 | Inr choices \<Rightarrow>
                     (case choices of
                        [] \<Rightarrow> error_prefix @ ''list index out of range''
                      | c # _ \<Rightarrow> c));
          srcs = extract_sources retrieved_docs
      in (\<lparr> r_answer = ans, r_sources = srcs \<rparr>, w'))"

text \<open>
  A client that records every request it receives, and answers by a fixed function of
  the request.
\<close>

definition recording :: "(chat_request \<Rightarrow> string + string list) \<Rightarrow> chat_request list chat_client" where
  "recording reply req sent = (reply req, sent @ [req])"

text \<open>The user message of a question over a context string.\<close>

definition user_prompt :: "string \<Rightarrow> string \<Rightarrow> string" where
  "user_prompt context_string question =
     ''Document Context:'' @ newline @ context_string @ newline @ newline
       @ ''Question: '' @ question @ newline @ newline
       @ ''Please provide a detailed answer based on the above context.''"

text \<open>
  For stating what is sent: the history after the \<open>None\<close> default, the system policy
  of a mode, and the last \<open>n\<close> entries of a list.
\<close>

definition history_of :: "(string \<times> string) list option \<Rightarrow> (string \<times> string) list" where
  "history_of chat_history = (case chat_history of None \<Rightarrow> [] | Some h \<Rightarrow> h)"

definition system_policy :: "string \<Rightarrow> string" where
  "system_policy mode = (if mode = ''strict'' then STRICT_SYSTEM_PROMPT else HYBRID_SYSTEM_PROMPT)"

definition last_turns :: "nat \<Rightarrow> 'a list \<Rightarrow> 'a list" where
  "last_turns n h = drop (length h - n) h"

text \<open>A client whose every call raises a timeout.\<close>

definition refusing :: "unit chat_client" where
  "refusing req w = (Inl ''timeout'', w)"

section \<open>ingest.py\<close>

text \<open>
  An uploaded file: its name and its contents. The three parsers read the contents
  with pypdf, python-docx, pandas and the text splitter; they are taken as given
  functions that return the chunked documents or raise.
\<close>

record 'b uploaded_file =
  name :: string
  body :: 'b

text \<open>
  What a call raises: the \<open>ValueError\<close> of \<open>ingest_file\<close> for an unsupported type,
  or whatever a parser raised. The message of the \<open>ValueError\<close> is built from the
  extension and the rendering of the set \<open>SUPPORTED_EXTENSIONS\<close>, whose element order
  Python leaves open; the model keeps the extension.
\<close>

datatype 'e ingest_error = ValueError string | Raised 'e

type_synonym ('b, 'e) loader = "'b uploaded_file \<Rightarrow> 'e + document list"

record ('b, 'e) loaders =
  load_pdf :: "('b, 'e) loader"
  load_docx :: "('b, 'e) loader"
  load_csv :: "('b, 'e) loader"

text \<open>\<open>p.rfind(c)\<close>: the index of the last occurrence, or -1.\<close>

definition rfind :: "char \<Rightarrow> string \<Rightarrow> int" where
  "rfind c p =
     (if c \<in> set p
      then int (length p) - 1 - int (length (takeWhile (\<lambda>x. x \<noteq> c) (rev p)))
      else - 1)"

text \<open>
  \<open>os.path.splitext\<close> on POSIX (\<open>genericpath._splitext\<close> with separator \<open>/\<close> and
  no alternative separator): the extension starts at the last dot of the last path
  component, unless that component has only dots before it.
\<close>

function splitext_loop :: "string \<Rightarrow> nat \<Rightarrow> nat \<Rightarrow> string \<times> string" where
  "splitext_loop p filenameIndex dotIndex =
     (if filenameIndex < dotIndex
      then (if p ! filenameIndex \<noteq> CHR ''.''
            then (take dotIndex p, drop dotIndex p)
            else splitext_loop p (filenameIndex + 1) dotIndex)
      else (p, []))"
  by pat_completeness auto
termination
  by (relation "measure (\<lambda>(p, filenameIndex, dotIndex). dotIndex - filenameIndex)") auto

declare splitext_loop.simps [simp del]

definition splitext :: "string \<Rightarrow> string \<times> string" where
  "splitext p =
     (let sepIndex = rfind CHR ''/'' p;
          dotIndex = rfind CHR ''.'' p
      in if dotIndex > sepIndex
         then splitext_loop p (nat (sepIndex + 1)) (nat dotIndex)
         else (p, []))"

text \<open>\<open>str.lower\<close> on the letters of ASCII; every other character is left as it is.\<close>

definition lower_char :: "char \<Rightarrow> char" where
  "lower_char c =
     (case map_of (zip ''ABCDEFGHIJKLMNOPQRSTUVWXYZ'' ''abcdefghijklmnopqrstuvwxyz'') c of
        None \<Rightarrow> c
      | Some l \<Rightarrow> l)"

definition lower :: "string \<Rightarrow> string" where
  "lower s = map lower_char s"

text \<open>\<open>_LOADER_MAP.get(ext)\<close>.\<close>

definition LOADER_MAP :: "('b, 'e) loaders \<Rightarrow> string \<Rightarrow> ('b, 'e) loader option" where
  "LOADER_MAP L ext =
     (if ext = ''.pdf'' then Some (load_pdf L)
      else if ext = ''.docx'' then Some (load_docx L)
      else if ext = ''.csv'' then Some (load_csv L)
      else None)"

definition ingest_file :: "('b, 'e) loaders \<Rightarrow> 'b uploaded_file \<Rightarrow> 'e ingest_error + document list" where
  "ingest_file L file =
     (let ext = lower (snd (splitext (name file)));
          loader = LOADER_MAP L ext
      in case loader of
           None \<Rightarrow> Inl (ValueError ext)
         | Some ld \<Rightarrow> (case ld file of Inl e \<Rightarrow> Inl (Raised e) | Inr docs \<Rightarrow> Inr docs))"

text \<open>The loop of \<open>ingest_files\<close> with its list \<open>all_docs\<close>; an exception ends it.\<close>

fun ingest_loop ::
  "('b, 'e) loaders \<Rightarrow> 'b uploaded_file list \<Rightarrow> document list \<Rightarrow> 'e ingest_error + document list" where
  "ingest_loop L [] all_docs = Inr all_docs"
| "ingest_loop L (file # rest) all_docs =
     (case ingest_file L file of
        Inl e \<Rightarrow> Inl e
      | Inr docs \<Rightarrow> ingest_loop L rest (all_docs @ docs))"

definition ingest_files :: "('b, 'e) loaders \<Rightarrow> 'b uploaded_file list \<Rightarrow> 'e ingest_error + document list" where
  "ingest_files L files = ingest_loop L files []"

text \<open>The extension \<open>ingest_file\<close> dispatches on.\<close>

definition extension :: "'b uploaded_file \<Rightarrow> string" where
  "extension file = lower (snd (splitext (name file)))"

text \<open>Sequencing two results that may have raised, joining the documents.\<close>

definition both :: "'x + 'a list \<Rightarrow> 'x + 'a list \<Rightarrow> 'x + 'a list" where
  "both r s =
     (case r of Inl e \<Rightarrow> Inl e
      | Inr a \<Rightarrow> (case s of Inl e \<Rightarrow> Inl e | Inr b \<Rightarrow> Inr (a @ b)))"

text \<open>Parsers for the examples: one chunk per file, or a failure.\<close>

definition one_chunk :: "string \<Rightarrow> (string, string) loader" where
  "one_chunk kind file =
     (if body file = [] then Inl ''empty file''
      else Inr [\<lparr> page_content = body file,
                 metadata = [(''source'', PStr (name file)), (''chunk'', PInt 1),
                   (''type'', PStr kind)] \<rparr>])"

definition demo_loaders :: "(string, string) loaders" where
  "demo_loaders =
     \<lparr> load_pdf = one_chunk ''pdf'', load_docx = one_chunk ''docx'', load_csv = one_chunk ''csv'' \<rparr>"

section \<open>vector\_store.py\<close>

text \<open>
  The Chroma collection is outside the program. Its persistent state has some type
  \<open>'s\<close>, and each operation the module calls is a function of that state that may
  raise an exception of type \<open>'e\<close>: opening the client and the collection
  (\<open>_get_collection\<close>), \<open>add\<close>, \<open>count\<close>, \<open>query\<close>, \<open>get\<close> (its \<open>ids\<close>) and
  \<open>delete\<close>. The operations that write return the state they leave, whether they
  raised or not.
\<close>

record query_result =
  documents :: "string list list"
  metadatas :: "metadata list list option"

record ('s, 'e) collection =
  db_connect :: "'s \<Rightarrow> 'e option"
  db_add :: "'s \<Rightarrow> string list \<Rightarrow> string list \<Rightarrow> metadata list \<Rightarrow> 'e option \<times> 's"
  db_count :: "'s \<Rightarrow> 'e + int"
  db_query :: "'s \<Rightarrow> string \<Rightarrow> int \<Rightarrow> 'e + query_result"
  db_get :: "'s \<Rightarrow> 'e + string list"
  db_delete :: "'s \<Rightarrow> string list \<Rightarrow> 'e option \<times> 's"

subsection \<open>add\_documents\<close>

text \<open>
  The id \<open>f"doc_{i}_{hash(doc.page_content) % 100000}"\<close>. Python's \<open>hash\<close> of a string
  is fixed within one process only; it is a parameter.
\<close>

definition doc_id :: "(string \<Rightarrow> int) \<Rightarrow> nat \<Rightarrow> document \<Rightarrow> string" where
  "doc_id hash i doc =
     ''doc_'' @ str_int (int i) @ ''_'' @ str_int (hash (page_content doc) mod 100000)"

definition doc_ids :: "(string \<Rightarrow> int) \<Rightarrow> document list \<Rightarrow> string list" where
  "doc_ids hash docs = map (\<lambda>(i, doc). doc_id hash i doc) (enumerate 0 docs)"

text \<open>The slice \<open>xs[start:end]\<close> for indices that are not negative.\<close>

definition py_slice :: "'a list \<Rightarrow> nat \<Rightarrow> nat \<Rightarrow> 'a list" where
  "py_slice xs start end = take (end - start) (drop start xs)"

text \<open>The loop \<open>for start in range(0, len(texts), batch_size)\<close>, from a given start.\<close>

function add_batches ::
  "('s, 'e) collection \<Rightarrow> 's \<Rightarrow> string list \<Rightarrow> string list \<Rightarrow> metadata list \<Rightarrow> nat
     \<Rightarrow> 'e option \<times> 's" where
  "add_batches B s ids texts metas start =
     (if start < length texts
      then (let end = start + 100
            in case db_add B s (py_slice ids start end) (py_slice texts start end)
                      (py_slice metas start end) of
                 (Some e, s') \<Rightarrow> (Some e, s')
               | (None, s') \<Rightarrow> add_batches B s' ids texts metas (start + 100))
      else (None, s))"
  by pat_completeness auto
termination
  by (relation "measure (\<lambda>(B, s, ids, texts, metas, start). length texts - start)") auto

declare add_batches.simps [simp del]

text \<open>
  \<open>add_documents\<close>: the exception that ended the call, if one did, and the state of
  the collection afterwards.
\<close>

definition add_documents ::
  "('s, 'e) collection \<Rightarrow> (string \<Rightarrow> int) \<Rightarrow> 's \<Rightarrow> document list \<Rightarrow> 'e option \<times> 's" where
  "add_documents B hash s docs =
     (case db_connect B s of
        Some e \<Rightarrow> (Some e, s)
      | None \<Rightarrow>
          (let ids = doc_ids hash docs;
               texts = map page_content docs;
               metas = map metadata docs
           in add_batches B s ids texts metas 0))"

subsection \<open>search\<close>

text \<open>
  What \<open>search\<close> can raise: an exception of the collection, or the IndexError of a
  subscript on the query result.
\<close>

datatype 'e failure = Storage 'e | IndexError

text \<open>\<open>results["metadatas"][0][i] if results["metadatas"] else {}\<close>.\<close>

definition result_metadata :: "query_result \<Rightarrow> nat \<Rightarrow> 'e failure + metadata" where
  "result_metadata results i =
     (case metadatas results of
        None \<Rightarrow> Inr []
      | Some [] \<Rightarrow> Inr []
      | Some (m0 # _) \<Rightarrow> (if i < length m0 then Inr (m0 ! i) else Inl IndexError))"

text \<open>The loop over \<open>range(len(results["documents"][0]))\<close>, appending to \<open>documents\<close>.\<close>

fun search_loop ::
  "query_result \<Rightarrow> string list \<Rightarrow> nat list \<Rightarrow> document list \<Rightarrow> 'e failure + document list" where
  "search_loop results docs0 [] acc = Inr acc"
| "search_loop results docs0 (i # rest) acc =
     (if i < length docs0
      then (case result_metadata results i of
              Inl e \<Rightarrow> Inl e
            | Inr m \<Rightarrow>
                search_loop results docs0 rest
                  (acc @ [\<lparr> page_content = docs0 ! i, metadata = m \<rparr>]))
      else Inl IndexError)"

definition search ::
  "('s, 'e) collection \<Rightarrow> 's \<Rightarrow> string \<Rightarrow> int \<Rightarrow> 'e failure + document list" where
  "search B s query k =
     (case db_connect B s of
        Some e \<Rightarrow> Inl (Storage e)
      | None \<Rightarrow>
          (case db_count B s of
             Inl e \<Rightarrow> Inl (Storage e)
           | Inr count \<Rightarrow>
               if count = 0 then Inr []
               else (let k = min k count
                     in case db_query B s query k of
                          Inl e \<Rightarrow> Inl (Storage e)
                        | Inr results \<Rightarrow>
                            (case documents results of
                               [] \<Rightarrow> Inl IndexError
                             | docs0 # _ \<Rightarrow>
                                 search_loop results docs0 [0..<length docs0] []))))"

subsection \<open>clear\<close>

text \<open>The body of the \<open>try\<close> block of \<open>clear\<close>.\<close>

definition clear_try :: "('s, 'e) collection \<Rightarrow> 's \<Rightarrow> 'e option \<times> 's" where
  "clear_try B s =
     (case db_connect B s of
        Some e \<Rightarrow> (Some e, s)
      | None \<Rightarrow>
          (case db_get B s of
             Inl e \<Rightarrow> (Some e, s)
           | Inr all_ids \<Rightarrow> if all_ids \<noteq> [] then db_delete B s all_ids else (None, s)))"

text \<open>\<open>clear\<close>: the handler \<open>except Exception: pass\<close> around the body.\<close>

definition clear :: "('s, 'e) collection \<Rightarrow> 's \<Rightarrow> 'e option \<times> 's" where
  "clear B s =
     (case clear_try B s of
        (Some e, s') \<Rightarrow> (None, s')
      | (None, s') \<Rightarrow> (None, s'))"

text \<open>A hash for the examples: the length of the string.\<close>

definition length_hash :: "string \<Rightarrow> int" where
  "length_hash s = int (length s)"

subsection \<open>A reference collection\<close>

text \<open>A stored record: its id, its text and its metadata, in insertion order.\<close>

record vrecord =
  rec_id :: string
  rec_text :: string
  rec_meta :: metadata

definition record_doc :: "vrecord \<Rightarrow> document" where
  "record_doc r = \<lparr> page_content = rec_text r, metadata = rec_meta r \<rparr>"

text \<open>
  Modelled from the spec: the ranking of the Vector Index (section 4.2), which is the
  work of the Chroma library and not of this repository. All stored records are ordered
  by descending similarity score to the query, ties broken by earliest insertion; the
  similarity of a query text and a record text (embedding and metric together) is the
  parameter \<open>score\<close>.
\<close>

definition ranked :: "(string \<Rightarrow> string \<Rightarrow> rat) \<Rightarrow> string \<Rightarrow> vrecord list \<Rightarrow> vrecord list" where
  "ranked score q recs = sort_key (\<lambda>r. - score q (rec_text r)) recs"

text \<open>Inserting one record: an existing id is overwritten in place, a new one is appended.\<close>

definition upsert :: "vrecord list \<Rightarrow> vrecord \<Rightarrow> vrecord list" where
  "upsert s r =
     (if rec_id r \<in> rec_id ` set s
      then map (\<lambda>x. if rec_id x = rec_id r then r else x) s
      else s @ [r])"

fun make_records :: "string list \<Rightarrow> string list \<Rightarrow> metadata list \<Rightarrow> vrecord list" where
  "make_records (i # ids) (t # texts) (m # metas) =
     \<lparr> rec_id = i, rec_text = t, rec_meta = m \<rparr> # make_records ids texts metas"
| "make_records _ _ _ = []"

text \<open>
  Modelled from the spec: the Vector Index of section 4.2 as an in-memory list of
  records, standing for the Chroma collection that is not part of this repository.
  A batch is stored as a whole or not at all; a query returns the top \<open>n\<close> of the
  ranking; \<open>get\<close> lists the ids and \<open>delete\<close> removes the records with the given ids.
  The spec leaves open a query for a number of results that is not positive; the
  Chroma library rejects it when it validates \<open>n_results\<close>, and so does the model.
  Storage errors are injected by two switches: an \<open>add\<close> that would take the store
  beyond \<open>capacity\<close> records raises and stores nothing, and a \<open>delete\<close> on a \<open>locked\<close>
  store raises and removes nothing.
\<close>

definition n_results_error :: string where
  "n_results_error = ''Number of requested results cannot be negative, or zero.''"

definition index_store ::
  "(string \<Rightarrow> string \<Rightarrow> rat) \<Rightarrow> nat \<Rightarrow> bool \<Rightarrow> (vrecord list, string) collection" where
  "index_store score capacity locked =
     \<lparr> db_connect = (\<lambda>s. None),
       db_add = (\<lambda>s ids texts metas.
          if length s + length ids > capacity then (Some ''storage full'', s)
          else (None, foldl upsert s (make_records ids texts metas))),
       db_count = (\<lambda>s. Inr (int (length s))),
       db_query = (\<lambda>s q n.
          if n \<le> 0 then Inl n_results_error
          else (let top = take (nat n) (ranked score q s)
                in Inr \<lparr> documents = [map rec_text top],
                         metadatas = Some [map rec_meta top] \<rparr>)),
       db_get = (\<lambda>s. Inr (map rec_id s)),
       db_delete = (\<lambda>s ids.
          if locked then (Some ''locked'', s)
          else (None, filter (\<lambda>r. rec_id r \<notin> set ids) s)) \<rparr>"

text \<open>A similarity for the examples: the length of the common prefix of the two texts.\<close>

definition prefix_score :: "string \<Rightarrow> string \<Rightarrow> rat" where
  "prefix_score q t = of_nat (length (takeWhile (\<lambda>(a, b). a = b) (zip q t)))"

definition three_records :: "vrecord list" where
  "three_records =
     [\<lparr> rec_id = ''doc_0_1'', rec_text = ''The sky is blue.'', rec_meta = [(''source'', PStr ''sky.pdf'')] \<rparr>,
      \<lparr> rec_id = ''doc_1_2'', rec_text = ''Clouds are white.'', rec_meta = [(''source'', PStr ''sky.pdf'')] \<rparr>,
      \<lparr> rec_id = ''doc_2_3'', rec_text = ''The sea is blue.'', rec_meta = [(''source'', PStr ''sea.pdf'')] \<rparr>]"

text \<open>An insert of two batches: 101 chunks.\<close>

definition many_docs :: "document list" where
  "many_docs = replicate 101 sky1"

subsection \<open>Stating what an insert commits\<close>

text \<open>
  The batch that starts at a position, the batches of a call in order, and their
  commitment one after the other: the first \<open>add\<close> that raises ends it, with its
  exception and the state it left.
\<close>

type_synonym batch = "string list \<times> string list \<times> metadata list"

definition batch_at :: "string list \<Rightarrow> string list \<Rightarrow> metadata list \<Rightarrow> nat \<Rightarrow> batch" where
  "batch_at ids texts metas start =
     (py_slice ids start (start + 100), py_slice texts start (start + 100),
      py_slice metas start (start + 100))"

definition batches :: "string list \<Rightarrow> string list \<Rightarrow> metadata list \<Rightarrow> batch list" where
  "batches ids texts metas =
     map (\<lambda>j. batch_at ids texts metas (100 * j)) [0..<(length texts + 99) div 100]"

fun commit_batches :: "('s, 'e) collection \<Rightarrow> 's \<Rightarrow> batch list \<Rightarrow> 'e option \<times> 's" where
  "commit_batches B s [] = (None, s)"
| "commit_batches B s ((ids, texts, metas) # rest) =
     (case db_add B s ids texts metas of
        (Some e, s') \<Rightarrow> (Some e, s')
      | (None, s') \<Rightarrow> commit_batches B s' rest)"

section \<open>Properties of citation snippets\<close>

lemma length_snippet_of:
  "length (snippet_of s) = (if length s > 150 then 153 else length s)"
  by (simp add: snippet_of_def)

text \<open>
  Claim C3, as the code has it: the snippet of a citation is the chunk content when that
  has at most 150 characters; otherwise it is the first 150 characters of the content
  followed by the three-character marker \<open>...\<close>, 153 characters in all. So the content
  part never exceeds 150 characters and the snippet never exceeds 153.
\<close>

theorem citation_snippet_truncated:
  "c_snippet (citation_of doc) =
     (if length (page_content doc) > 150 then take 150 (page_content doc) @ ''...''
      else page_content doc)
   \<and> length (c_snippet (citation_of doc)) =
     (if length (page_content doc) > 150 then 153 else length (page_content doc))
   \<and> length (c_snippet (citation_of doc)) \<le> 153"
  by (simp add: citation_of_def snippet_of_def Let_def)

theorem citation_snippet_truncated_witness:
  "c_snippet (citation_of \<lparr> page_content = replicate 200 CHR ''x'', metadata = [] \<rparr>) =
     replicate 150 CHR ''x'' @ ''...''"
  using citation_snippet_truncated [of "\<lparr> page_content = replicate 200 CHR ''x'', metadata = [] \<rparr>"]
  by simp

text \<open>
  As stated, C3 bounds the snippet by 150 characters. A chunk of 151 characters gets a
  snippet of 153.
\<close>

theorem citation_snippet_exceeds_150:
  "\<not> length (c_snippet (citation_of \<lparr> page_content = replicate 151 CHR ''a'', metadata = [] \<rparr>)) \<le> 150"
  by (simp add: citation_of_def snippet_of_def Let_def)

section \<open>Properties of the history window\<close>

lemma history_loop_filter:
  "history_loop h acc = acc @ map turn_message (filter chat_role h)"
  by (induction h acc rule: history_loop.induct) (auto simp: turn_message_def chat_role_def)

lemma format_chat_history_closed:
  "format_chat_history h 5 = map turn_message (filter chat_role (drop (length h - 10) h))"
  by (simp add: format_chat_history_def py_slice_from_def history_loop_filter
      nat_diff_distrib' Let_def)

text \<open>
  Claim C10: with the default of five turns, the window is cut first (the last ten
  entries of the history, whatever their roles) and filtered afterwards (only the roles
  \<open>user\<close> and \<open>assistant\<close> become messages). The result has at most
  \<open>min 10 (length h)\<close> messages, and there are histories for which it has fewer.
\<close>

theorem history_window_then_filter:
  "format_chat_history h 5 = map turn_message (filter chat_role (drop (length h - 10) h))
   \<and> length (format_chat_history h 5) \<le> min 10 (length h)
   \<and> (\<exists>h'. length (format_chat_history h' 5) < min 10 (length h'))"
proof -
  have closed: "format_chat_history h 5 =
      map turn_message (filter chat_role (drop (length h - 10) h))"
    by (rule format_chat_history_closed)
  have "length (filter chat_role (drop (length h - 10) h)) \<le> length (drop (length h - 10) h)"
    by (rule length_filter_le)
  then have "length (filter chat_role (drop (length h - 10) h)) \<le> min 10 (length h)"
    by (simp only: length_drop)
  then have bound: "length (format_chat_history h 5) \<le> min 10 (length h)"
    by (simp only: closed length_map)
  have "length (format_chat_history [(''system'', ''be brief''), (''user'', ''hi'')] 5) = 1"
    by (simp add: format_chat_history_def py_slice_from_def)
  then have "length (format_chat_history [(''system'', ''be brief''), (''user'', ''hi'')] 5)
      < min 10 (length [(''system'', ''be brief''), (''user'', ''hi'')])"
    by simp
  then have strict: "\<exists>h'. length (format_chat_history h' 5) < min 10 (length h')"
    by blast
  from closed bound strict show ?thesis by blast
qed

theorem history_window_then_filter_witness:
  "format_chat_history
     [(''system'', ''s''), (''user'', ''q1''), (''assistant'', ''a1''), (''tool'', ''t'')] 5 =
   [\<lparr> role = ''user'', content = ''q1'' \<rparr>, \<lparr> role = ''assistant'', content = ''a1'' \<rparr>]"
  using history_window_then_filter
    [of "[(''system'', ''s''), (''user'', ''q1''), (''assistant'', ''a1''), (''tool'', ''t'')]"]
  by (simp add: turn_message_def chat_role_def)

section \<open>Decimal rendering of integers\<close>

lemma digit_char_numeric: "d < 10 \<Longrightarrow> numeric_char (digit_char d)"
proof -
  assume "d < 10"
  then have "d \<in> {0,1,2,3,4,5,6,7,8,9}" by auto
  then show ?thesis by (auto simp: numeric_char_def digit_char_def)
qed

lemma digit_char_not_minus: "d < 10 \<Longrightarrow> digit_char d \<noteq> CHR ''-''"
proof -
  assume "d < 10"
  then have "d \<in> {0,1,2,3,4,5,6,7,8,9}" by auto
  then show ?thesis by (auto simp: digit_char_def)
qed

lemma digit_char_value: "d < 10 \<Longrightarrow> of_char (digit_char d) = 48 + d"
proof -
  assume "d < 10"
  then have "d \<in> {0,1,2,3,4,5,6,7,8,9}" by auto
  then show ?thesis by (auto simp: digit_char_def)
qed

lemma digit_char_inj: "a < 10 \<Longrightarrow> b < 10 \<Longrightarrow> digit_char a = digit_char b \<Longrightarrow> a = b"
proof -
  assume a: "a < 10" and b: "b < 10" and e: "digit_char a = digit_char b"
  from e have "(of_char (digit_char a) :: nat) = of_char (digit_char b)" by simp
  then show ?thesis by (simp add: digit_char_value [OF a] digit_char_value [OF b])
qed

lemma str_nat_numeric: "\<forall>c \<in> set (str_nat n). numeric_char c"
proof (induction n rule: str_nat.induct)
  case (1 n)
  show ?case
  proof (cases "n < 10")
    case True
    then show ?thesis by (subst str_nat.simps) (simp add: digit_char_numeric)
  next
    case False
    with 1 show ?thesis by (subst str_nat.simps) (simp add: digit_char_numeric)
  qed
qed

lemma str_nat_nonempty: "str_nat n \<noteq> []" "[] \<noteq> str_nat n"
  by (subst str_nat.simps, simp)+

lemma str_nat_hd: "hd (str_nat n) \<noteq> CHR ''-''"
proof (induction n rule: str_nat.induct)
  case (1 n)
  show ?case
  proof (cases "n < 10")
    case True
    then show ?thesis by (subst str_nat.simps) (simp add: digit_char_not_minus)
  next
    case False
    with 1 show ?thesis by (subst str_nat.simps) (simp add: str_nat_nonempty)
  qed
qed

lemma str_nat_inj: "str_nat n = str_nat m \<Longrightarrow> n = m"
proof (induction n arbitrary: m rule: str_nat.induct)
  case (1 n)
  show ?case
  proof (cases "n < 10")
    case n: True
    show ?thesis
    proof (cases "m < 10")
      case True
      with n "1.prems" show ?thesis
        by (simp add: str_nat.simps [of n] str_nat.simps [of m] digit_char_inj)
    next
      case False
      with n "1.prems" show ?thesis
        by (simp add: str_nat.simps [of n] str_nat.simps [of m] str_nat_nonempty)
    qed
  next
    case n: False
    show ?thesis
    proof (cases "m < 10")
      case True
      with n "1.prems" show ?thesis
        by (simp add: str_nat.simps [of n] str_nat.simps [of m] str_nat_nonempty)
    next
      case False
      with n "1.prems" have e: "str_nat (n div 10) = str_nat (m div 10)"
        and d: "digit_char (n mod 10) = digit_char (m mod 10)"
        by (simp_all add: str_nat.simps [of n] str_nat.simps [of m])
      from "1.IH" [OF n e] have q: "n div 10 = m div 10" .
      have r: "n mod 10 = m mod 10" by (rule digit_char_inj [OF _ _ d]) simp_all
      from q r show ?thesis by (metis div_mult_mod_eq)
    qed
  qed
qed

lemma str_int_inj: "str_int i = str_int j \<Longrightarrow> i = j"
proof -
  assume e: "str_int i = str_int j"
  have neg: "\<And>a b. CHR ''-'' # a \<noteq> str_nat b"
    using str_nat_hd str_nat_nonempty by (metis list.sel(1))
  show ?thesis
  proof (cases "i < 0"; cases "j < 0")
    assume "i < 0" "j < 0"
    with e have "nat (- i) = nat (- j)" by (simp add: str_int_def str_nat_inj)
    with \<open>i < 0\<close> \<open>j < 0\<close> show ?thesis by simp
  next
    assume "i < 0" "\<not> j < 0"
    with e neg show ?thesis by (simp add: str_int_def)
  next
    assume "\<not> i < 0" "j < 0"
    with e neg [of "str_nat (nat (- j))" "nat i"] show ?thesis by (simp add: str_int_def)
  next
    assume "\<not> i < 0" "\<not> j < 0"
    with e have "nat i = nat j" by (simp add: str_int_def str_nat_inj)
    with \<open>\<not> i < 0\<close> \<open>\<not> j < 0\<close> show ?thesis by simp
  qed
qed

lemma str_int_numeric: "\<forall>c \<in> set (str_int i). numeric_char c"
  using str_nat_numeric by (auto simp: str_int_def numeric_char_def)

lemma str_int_nonempty: "str_int i \<noteq> []" "[] \<noteq> str_int i"
  by (simp_all add: str_int_def str_nat_nonempty)

lemma py_str_numeric: "int_or_absent v \<Longrightarrow> \<forall>c \<in> set (py_str v). numeric_char c"
  using str_int_numeric by (cases v) (auto simp: int_or_absent_def)

lemma py_str_inj:
  "int_or_absent v \<Longrightarrow> int_or_absent w \<Longrightarrow> py_str v = py_str w \<Longrightarrow> v = w"
  using str_int_inj str_int_nonempty
  by (cases v; cases w) (auto simp: int_or_absent_def)

lemma split_at_marker:
  assumes "c \<notin> set C" "c \<notin> set C'" "A @ d # c # C = A' @ d # c # C'"
  shows "A = A' \<and> C = C'"
proof -
  from assms(3) have "rev (A @ d # c # C) = rev (A' @ d # c # C')" by simp
  then have r: "rev C @ c # d # rev A = rev C' @ c # d # rev A'" by simp
  have "takeWhile (\<lambda>x. x \<noteq> c) (rev C @ c # d # rev A) = rev C"
    using assms(1) by (auto simp: takeWhile_tail)
  moreover have "takeWhile (\<lambda>x. x \<noteq> c) (rev C' @ c # d # rev A') = rev C'"
    using assms(2) by (auto simp: takeWhile_tail)
  ultimately have "rev C = rev C'" using r by simp
  with r show ?thesis by simp
qed

section \<open>Properties of citation extraction\<close>

lemma extract_loop_unseen:
  "extract_loop ds acc seen = acc @ map citation_of (unseen cite_key seen ds)"
  by (induction ds arbitrary: acc seen) (simp_all add: Let_def)

lemma unseen_index:
  "unseen k (k ` set pre) ds =
     map (\<lambda>i. (pre @ ds) ! i)
       (filter (\<lambda>i. k ((pre @ ds) ! i) \<notin> k ` set (take i (pre @ ds)))
          [length pre..<length pre + length ds])"
proof (induction ds arbitrary: pre)
  case Nil
  then show ?case by simp
next
  case (Cons x xs)
  define f where "f = (\<lambda>i. (pre @ x # xs) ! i)"
  define P where "P = (\<lambda>i. k ((pre @ x # xs) ! i) \<notin> k ` set (take i (pre @ x # xs)))"
  define rest where "rest = [Suc (length pre)..<Suc (length pre) + length xs]"
  have ih: "unseen k (k ` set (pre @ [x])) xs = map f (filter P rest)"
    using Cons.IH [of "pre @ [x]"] by (simp add: f_def P_def rest_def)
  have upt: "[length pre..<length pre + length (x # xs)] = length pre # rest"
    by (simp add: upt_conv_Cons rest_def del: upt_Suc)
  have img: "k ` set (pre @ [x]) = insert (k x) (k ` set pre)" by simp
  have f0: "f (length pre) = x" by (simp add: f_def)
  have P0: "P (length pre) = (k x \<notin> k ` set pre)" by (simp add: P_def)
  have goal: "unseen k (k ` set pre) (x # xs) = map f (filter P (length pre # rest))"
  proof (cases "k x \<in> k ` set pre")
    case True
    then have "insert (k x) (k ` set pre) = k ` set pre" by (rule insert_absorb)
    with True ih img f0 P0 show ?thesis by simp
  next
    case False
    with ih img f0 P0 show ?thesis by simp
  qed
  show ?case unfolding upt using goal by (simp only: f_def P_def)
qed

lemma unseen_first_seen: "unseen k {} xs = first_seen k xs"
  using unseen_index [of k "[]" xs] by (simp add: first_seen_def)

lemma unseen_subseq: "subseq (unseen k S xs) xs"
  by (induction xs arbitrary: S) auto

lemma unseen_keys: "k ` set (unseen k S xs) = k ` set xs - S"
  by (induction xs arbitrary: S) auto

lemma unseen_distinct: "distinct (map k (unseen k S xs))"
proof (induction xs arbitrary: S)
  case Nil show ?case by simp
next
  case (Cons x xs)
  have "k x \<notin> k ` set (unseen k (insert (k x) S) xs)"
    by (simp add: unseen_keys)
  with Cons show ?case by simp
qed

lemma first_seen_cong:
  assumes "\<And>a b. a \<in> set xs \<Longrightarrow> b \<in> set xs \<Longrightarrow> (k1 a = k1 b) = (k2 a = k2 b)"
  shows "first_seen k1 xs = first_seen k2 xs"
proof -
  have "\<And>i. i < length xs \<Longrightarrow>
      (k1 (xs ! i) \<in> k1 ` set (take i xs)) = (k2 (xs ! i) \<in> k2 ` set (take i xs))"
  proof -
    fix i assume i: "i < length xs"
    have sub: "set (take i xs) \<subseteq> set xs" by (rule set_take_subset)
    have mem: "xs ! i \<in> set xs" using i by simp
    show "(k1 (xs ! i) \<in> k1 ` set (take i xs)) = (k2 (xs ! i) \<in> k2 ` set (take i xs))"
      using assms [OF mem] sub by (auto simp: image_iff) 
  qed
  then have "filter (\<lambda>i. k1 (xs ! i) \<notin> k1 ` set (take i xs)) [0..<length xs] =
             filter (\<lambda>i. k2 (xs ! i) \<notin> k2 ` set (take i xs)) [0..<length xs]"
    by (intro filter_cong) auto
  then show ?thesis by (simp add: first_seen_def)
qed

lemma cite_key_triple: "doc_triple a = doc_triple b \<Longrightarrow> cite_key a = cite_key b"
  by (simp add: doc_triple_def cite_key_def Let_def)


lemma cite_key_inj:
  assumes "wf_doc a" "wf_doc b" "cite_key a = cite_key b"
  shows "doc_triple a = doc_triple b"
proof -
  define sa where "sa = md_get (metadata a) ''source'' (PStr ''Unknown'')"
  define pa where "pa = md_get (metadata a) ''page'' (PStr '''')"
  define ca where "ca = md_get (metadata a) ''chunk'' (PStr '''')"
  define sb where "sb = md_get (metadata b) ''source'' (PStr ''Unknown'')"
  define pb where "pb = md_get (metadata b) ''page'' (PStr '''')"
  define cb where "cb = md_get (metadata b) ''chunk'' (PStr '''')"
  have wa: "is_str sa" "int_or_absent pa" "int_or_absent ca"
    using assms(1) by (simp_all add: wf_doc_def sa_def pa_def ca_def)
  have wb: "is_str sb" "int_or_absent pb" "int_or_absent cb"
    using assms(2) by (simp_all add: wf_doc_def sb_def pb_def cb_def)
  have nc: "CHR ''c'' \<notin> set (py_str v)" if "int_or_absent v" for v
  proof
    assume "CHR ''c'' \<in> set (py_str v)"
    with py_str_numeric [OF that] have "numeric_char CHR ''c''" by blast
    then show False by (simp add: numeric_char_def)
  qed
  have np: "CHR ''p'' \<notin> set (py_str v)" if "int_or_absent v" for v
  proof
    assume "CHR ''p'' \<in> set (py_str v)"
    with py_str_numeric [OF that] have "numeric_char CHR ''p''" by blast
    then show False by (simp add: numeric_char_def)
  qed
  have keys: "cite_key a = py_str sa @ ''-p'' @ py_str pa @ ''-c'' @ py_str ca"
    "cite_key b = py_str sb @ ''-p'' @ py_str pb @ ''-c'' @ py_str cb"
    by (simp_all add: cite_key_def Let_def sa_def pa_def ca_def sb_def pb_def cb_def)
  from assms(3) have
    "(py_str sa @ ''-p'' @ py_str pa) @ CHR ''-'' # CHR ''c'' # py_str ca =
     (py_str sb @ ''-p'' @ py_str pb) @ CHR ''-'' # CHR ''c'' # py_str cb"
    by (simp only: keys append_assoc append_Cons append_Nil)
  from split_at_marker [OF nc [OF wa(3)] nc [OF wb(3)] this]
  have k1: "py_str sa @ ''-p'' @ py_str pa = py_str sb @ ''-p'' @ py_str pb"
    and k2: "py_str ca = py_str cb" by blast+
  from k1 have "py_str sa @ CHR ''-'' # CHR ''p'' # py_str pa =
      py_str sb @ CHR ''-'' # CHR ''p'' # py_str pb"
    by (simp only: append_Cons append_Nil)
  from split_at_marker [OF np [OF wa(2)] np [OF wb(2)] this]
  have k3: "py_str sa = py_str sb" and k4: "py_str pa = py_str pb" by blast+
  from k3 wa(1) wb(1) have "sa = sb" by (cases sa; cases sb) (simp_all add: is_str_def)
  moreover have "pa = pb" by (rule py_str_inj [OF wa(2) wb(2) k4])
  moreover have "ca = cb" by (rule py_str_inj [OF wa(3) wb(3) k2])
  ultimately show ?thesis
    by (simp add: doc_triple_def sa_def pa_def ca_def sb_def pb_def cb_def)
qed

lemma distinct_map_coarser:
  assumes "distinct (map f xs)" "\<And>x y. g x = g y \<Longrightarrow> f x = f y"
  shows "distinct (map g xs)"
  using assms(1)
proof (induction xs)
  case Nil
  then show ?case by simp
next
  case (Cons x xs)
  then have "f x \<notin> f ` set xs" by simp
  then have "g x \<notin> g ` set xs" using assms(2) by (metis image_iff)
  with Cons show ?case by simp
qed

text \<open>
  Claim C2: the citations are those of the first-seen retrieved chunks under the
  deduplication key, in the order of the input. No two citations come from chunks with
  the same (source, page, chunk index); two results sharing that triple yield the one
  citation of the first; and for metadata as the ingestion module writes it, the key
  string separates exactly the triples, so the citations are those of the first
  occurrence of every triple.
\<close>

theorem extract_sources_first_seen:
  "extract_sources docs = map citation_of (first_seen cite_key docs)
   \<and> subseq (first_seen cite_key docs) docs
   \<and> distinct (map doc_triple (first_seen cite_key docs))
   \<and> (doc_triple a = doc_triple b \<longrightarrow> extract_sources [a, b] = [citation_of a])
   \<and> ((\<forall>d \<in> set docs. wf_doc d) \<longrightarrow>
        first_seen cite_key docs = first_seen doc_triple docs)"
proof -
  have refine: "extract_sources docs = map citation_of (first_seen cite_key docs)"
    by (simp add: extract_sources_def extract_loop_unseen unseen_first_seen)
  have order: "subseq (first_seen cite_key docs) docs"
    using unseen_subseq [of cite_key "{}" docs] by (simp add: unseen_first_seen)
  have "distinct (map cite_key (first_seen cite_key docs))"
    using unseen_distinct [of cite_key "{}" docs] by (simp add: unseen_first_seen)
  then have once: "distinct (map doc_triple (first_seen cite_key docs))"
    by (rule distinct_map_coarser) (rule cite_key_triple)
  have pair: "doc_triple a = doc_triple b \<longrightarrow> extract_sources [a, b] = [citation_of a]"
    by (auto simp: extract_sources_def Let_def dest: cite_key_triple)
  have typed: "(\<forall>d \<in> set docs. wf_doc d) \<longrightarrow>
      first_seen cite_key docs = first_seen doc_triple docs"
  proof
    assume wf: "\<forall>d \<in> set docs. wf_doc d"
    show "first_seen cite_key docs = first_seen doc_triple docs"
    proof (rule first_seen_cong)
      fix x y assume "x \<in> set docs" "y \<in> set docs"
      with wf have "wf_doc x" "wf_doc y" by blast+
      then show "(cite_key x = cite_key y) = (doc_triple x = doc_triple y)"
        using cite_key_inj cite_key_triple by blast
    qed
  qed
  from refine order once pair typed show ?thesis by blast
qed

theorem extract_sources_first_seen_witness:
  "extract_sources [sky1, sky1'] = [citation_of sky1]
   \<and> extract_sources [sky1, sky1', sky2] = [citation_of sky1, citation_of sky2]"
proof -
  have t: "doc_triple sky1 = doc_triple sky1'"
    by (simp add: doc_triple_def sky1_def sky1'_def md_get_def)
  have w: "\<forall>d \<in> set [sky1, sky1', sky2]. wf_doc d"
    by (simp add: wf_doc_def sky1_def sky1'_def sky2_def md_get_def is_str_def int_or_absent_def)
  have f: "first_seen doc_triple [sky1, sky1', sky2] = [sky1, sky2]"
    by (simp add: first_seen_def doc_triple_def sky1_def sky1'_def sky2_def md_get_def upt_rec)
  from extract_sources_first_seen [of "[sky1, sky1', sky2]" sky1 sky1'] t w f
  show ?thesis by simp
qed

section \<open>Properties of answer generation\<close>

lemma generate_answer_sent:
  "snd (generate_answer (recording reply) question docs hist mode sent) =
     sent @ [\<lparr> q_model = MODEL_ID,
       q_messages = \<lparr> role = ''system'', content = system_policy mode \<rparr>
         # format_chat_history (history_of hist) 5
         @ [\<lparr> role = ''user'', content = user_prompt (build_context_string docs) question \<rparr>],
       q_max_tokens = 1024,
       q_temperature = (if mode = ''strict'' then 0.3 else 0.5) \<rparr>]"
  by (simp add: generate_answer_def recording_def Let_def history_of_def system_policy_def
      user_prompt_def split: prod.splits)

text \<open>
  Claim C7: one request goes to the generation collaborator, and its message sequence
  is the system policy of the mode, then the windowed history, then one user message.
  The windowed history is taken from the last ten entries of the history (a suffix of
  it, in order, so at most ten turns and with everything older dropped); when every
  role is \<open>user\<close> or \<open>assistant\<close> it is exactly those entries. The user message
  holds the context string and, after it, the literal question.
\<close>

theorem generation_messages:
  "q_messages (last (snd (generate_answer (recording reply) question docs hist mode sent))) =
     \<lparr> role = ''system'', content = system_policy mode \<rparr>
       # map turn_message (filter chat_role (last_turns 10 (history_of hist)))
       @ [\<lparr> role = ''user'', content = user_prompt (build_context_string docs) question \<rparr>]
   \<and> length (snd (generate_answer (recording reply) question docs hist mode sent)) =
       Suc (length sent)
   \<and> length (filter chat_role (last_turns 10 (history_of hist))) \<le> 10
   \<and> ((\<forall>t \<in> set (history_of hist). chat_role t) \<longrightarrow>
        filter chat_role (last_turns 10 (history_of hist)) = last_turns 10 (history_of hist))
   \<and> suffix (last_turns 10 (history_of hist)) (history_of hist)
   \<and> user_prompt (build_context_string docs) question =
       ''Document Context:'' @ newline @ build_context_string docs @ newline @ newline
        @ ''Question: '' @ question @ newline @ newline
        @ ''Please provide a detailed answer based on the above context.''"
proof -
  let ?h = "history_of hist"
  have a: "q_messages (last (snd (generate_answer (recording reply) question docs hist mode sent))) =
     \<lparr> role = ''system'', content = system_policy mode \<rparr>
       # map turn_message (filter chat_role (last_turns 10 ?h))
       @ [\<lparr> role = ''user'', content = user_prompt (build_context_string docs) question \<rparr>]"
    by (simp add: generate_answer_sent format_chat_history_closed last_turns_def)
  have b: "length (snd (generate_answer (recording reply) question docs hist mode sent)) =
       Suc (length sent)"
    by (simp add: generate_answer_sent)
  have "length (filter chat_role (last_turns 10 ?h)) \<le> length (last_turns 10 ?h)"
    by (rule length_filter_le)
  also have "\<dots> \<le> 10" by (simp add: last_turns_def)
  finally have c: "length (filter chat_role (last_turns 10 ?h)) \<le> 10" .
  have d: "(\<forall>t \<in> set ?h. chat_role t) \<longrightarrow>
        filter chat_role (last_turns 10 ?h) = last_turns 10 ?h"
  proof
    assume all: "\<forall>t \<in> set ?h. chat_role t"
    have "set (last_turns 10 ?h) \<subseteq> set ?h" by (simp add: last_turns_def set_drop_subset)
    with all have "\<forall>t \<in> set (last_turns 10 ?h). chat_role t" by blast
    then show "filter chat_role (last_turns 10 ?h) = last_turns 10 ?h" by simp
  qed
  have e: "suffix (last_turns 10 ?h) ?h" by (simp add: last_turns_def suffix_drop)
  have f: "user_prompt (build_context_string docs) question =
       ''Document Context:'' @ newline @ build_context_string docs @ newline @ newline
        @ ''Question: '' @ question @ newline @ newline
        @ ''Please provide a detailed answer based on the above context.''"
    by (simp add: user_prompt_def)
  from a b c d e f show ?thesis by blast
qed

theorem generation_messages_witness:
  "q_messages (last (snd (generate_answer (recording (\<lambda>req. Inr [''Blue.'']))
       ''What color is the sky?'' []
       (Some [(''user'', ''hi''), (''assistant'', ''hello'')]) ''strict'' []))) =
   [\<lparr> role = ''system'', content = STRICT_SYSTEM_PROMPT \<rparr>,
    \<lparr> role = ''user'', content = ''hi'' \<rparr>,
    \<lparr> role = ''assistant'', content = ''hello'' \<rparr>,
    \<lparr> role = ''user'', content = ''Document Context:'' @ newline
        @ ''No relevant documents found.'' @ newline @ newline
        @ ''Question: What color is the sky?'' @ newline @ newline
        @ ''Please provide a detailed answer based on the above context.'' \<rparr>]"
proof -
  have h: "\<forall>t \<in> set (history_of (Some [(''user'', ''hi''), (''assistant'', ''hello'')])). chat_role t"
    by (simp add: history_of_def chat_role_def)
  from generation_messages [of "\<lambda>req. Inr [''Blue.'']" "''What color is the sky?''" "[]"
      "Some [(''user'', ''hi''), (''assistant'', ''hello'')]" "''strict''" "[]"] h
  show ?thesis
    by (simp add: history_of_def last_turns_def turn_message_def system_policy_def
        build_context_string_def)
qed


lemma generate_answer_result:
  "\<exists>req. generate_answer client question docs hist mode w =
     (\<lparr> r_answer = (case fst (client req w) of
                       Inl e \<Rightarrow> error_prefix @ e
                     | Inr choices \<Rightarrow>
                         (case choices of
                            [] \<Rightarrow> error_prefix @ ''list index out of range''
                          | c # _ \<Rightarrow> c)),
         r_sources = extract_sources docs \<rparr>,
      snd (client req w))"
  unfolding generate_answer_def Let_def
  by (rule exI) (simp only: split_beta)

text \<open>
  Claim C6: whatever the collaborator does, the returned citations are those extracted
  from the retrieved results. When the collaborator raises, the answer is the error
  marker followed by the text of the exception and the result is returned, not raised;
  the same holds for a response with no choices. The collaborator is called once:
  a recording client that always fails has received one more request afterwards.
\<close>

theorem generation_failure_recovered:
  "r_sources (fst (generate_answer client question docs hist mode w)) = extract_sources docs
   \<and> ((\<forall>req. fst (client req w) = Inl e) \<longrightarrow>
        fst (generate_answer client question docs hist mode w) =
          \<lparr> r_answer = error_prefix @ e, r_sources = extract_sources docs \<rparr>)
   \<and> ((\<forall>req. fst (client req w) = Inr []) \<longrightarrow>
        fst (generate_answer client question docs hist mode w) =
          \<lparr> r_answer = error_prefix @ ''list index out of range'',
            r_sources = extract_sources docs \<rparr>)
   \<and> length (snd (generate_answer (recording (\<lambda>req. Inl e)) question docs hist mode sent)) =
        Suc (length sent)"
proof -
  obtain req where r: "generate_answer client question docs hist mode w =
     (\<lparr> r_answer = (case fst (client req w) of
                       Inl e \<Rightarrow> error_prefix @ e
                     | Inr choices \<Rightarrow>
                         (case choices of
                            [] \<Rightarrow> error_prefix @ ''list index out of range''
                          | c # _ \<Rightarrow> c)),
         r_sources = extract_sources docs \<rparr>,
      snd (client req w))"
    using generate_answer_result [of client question docs hist mode w] by (elim exE)
  have a: "r_sources (fst (generate_answer client question docs hist mode w)) =
      extract_sources docs"
    by (simp add: r)
  have b: "(\<forall>req. fst (client req w) = Inl e) \<longrightarrow>
        fst (generate_answer client question docs hist mode w) =
          \<lparr> r_answer = error_prefix @ e, r_sources = extract_sources docs \<rparr>"
    by (simp add: r)
  have c: "(\<forall>req. fst (client req w) = Inr []) \<longrightarrow>
        fst (generate_answer client question docs hist mode w) =
          \<lparr> r_answer = error_prefix @ ''list index out of range'',
            r_sources = extract_sources docs \<rparr>"
    by (simp add: r)
  have d: "length (snd (generate_answer (recording (\<lambda>req. Inl e)) question docs hist mode sent)) =
        Suc (length sent)"
    by (simp add: generate_answer_sent)
  from a b c d show ?thesis by blast
qed

theorem generation_failure_recovered_witness:
  "generate_answer refusing ''What color is the sky?'' [sky1, sky1'] None ''strict'' () =
     (\<lparr> r_answer = cross_mark @ '' Error generating response: timeout'',
         r_sources = [citation_of sky1] \<rparr>, ())"
proof -
  have f: "\<forall>req. fst (refusing req ()) = Inl ''timeout''" by (simp add: refusing_def)
  have t: "doc_triple sky1 = doc_triple sky1'"
    by (simp add: doc_triple_def sky1_def sky1'_def md_get_def)
  have x: "extract_sources [sky1, sky1'] = [citation_of sky1]"
    using t by (auto simp: extract_sources_def Let_def dest: cite_key_triple)
  from generation_failure_recovered
    [of refusing "''What color is the sky?''" "[sky1, sky1']" None "''strict''" "()" "''timeout''"] f x
  show ?thesis by (simp add: error_prefix_def prod_eq_iff)
qed

section \<open>Properties of ingestion\<close>

text \<open>
  Claim C8: \<open>ingest_file\<close> looks at the lower-cased extension of the file name. When
  it is none of \<open>.pdf\<close>, \<open>.docx\<close>, \<open>.csv\<close> the call raises the unsupported-type
  error (a \<open>ValueError\<close> naming the extension) without reading the file; when it is one
  of the three, the result is that of the corresponding parser, and the
  unsupported-type error is not raised.
\<close>

theorem ingest_file_dispatch:
  "(extension file \<notin> {''.pdf'', ''.docx'', ''.csv''} \<longrightarrow>
      ingest_file L file = Inl (ValueError (extension file)))
   \<and> (extension file = ''.pdf'' \<longrightarrow>
      ingest_file L file = map_sum Raised id (load_pdf L file))
   \<and> (extension file = ''.docx'' \<longrightarrow>
      ingest_file L file = map_sum Raised id (load_docx L file))
   \<and> (extension file = ''.csv'' \<longrightarrow>
      ingest_file L file = map_sum Raised id (load_csv L file))
   \<and> (extension file \<in> {''.pdf'', ''.docx'', ''.csv''} \<longrightarrow>
      (\<forall>x. ingest_file L file \<noteq> Inl (ValueError x)))"
  by (auto simp: ingest_file_def extension_def LOADER_MAP_def Let_def split: sum.splits)

theorem ingest_file_dispatch_witness:
  "ingest_file demo_loaders \<lparr> name = ''report.PDF'', body = ''text'' \<rparr> =
     Inr [\<lparr> page_content = ''text'',
            metadata = [(''source'', PStr ''report.PDF''), (''chunk'', PInt 1),
              (''type'', PStr ''pdf'')] \<rparr>]
   \<and> ingest_file demo_loaders \<lparr> name = ''notes.txt'', body = ''text'' \<rparr> =
     Inl (ValueError ''.txt'')"
proof -
  have a: "extension \<lparr> name = ''report.PDF'', body = ''text'' \<rparr> = ''.pdf''"
    by (simp add: extension_def splitext_def rfind_def splitext_loop.simps lower_def
        lower_char_def)
  have b: "extension \<lparr> name = ''notes.txt'', body = ''text'' \<rparr> = ''.txt''"
    by (simp add: extension_def splitext_def rfind_def splitext_loop.simps lower_def
        lower_char_def)
  from ingest_file_dispatch [of "\<lparr> name = ''report.PDF'', body = ''text'' \<rparr>" demo_loaders]
    ingest_file_dispatch [of "\<lparr> name = ''notes.txt'', body = ''text'' \<rparr>" demo_loaders] a b
  show ?thesis by (simp add: demo_loaders_def one_chunk_def)
qed

lemma ingest_loop_acc:
  "ingest_loop L fs acc = both (Inr acc) (ingest_loop L fs [])"
proof (induction fs arbitrary: acc)
  case Nil
  then show ?case by (simp add: both_def)
next
  case (Cons f fs)
  show ?case
  proof (cases "ingest_file L f")
    case (Inl e)
    then show ?thesis by (simp add: both_def)
  next
    case (Inr ds)
    have "ingest_loop L (f # fs) acc = ingest_loop L fs (acc @ ds)" using Inr by simp
    also have "\<dots> = both (Inr (acc @ ds)) (ingest_loop L fs [])" by (rule Cons.IH)
    also have "\<dots> = both (Inr acc) (both (Inr ds) (ingest_loop L fs []))"
      by (simp add: both_def split: sum.splits)
    also have "both (Inr ds) (ingest_loop L fs []) = ingest_loop L fs ds"
      by (rule Cons.IH [symmetric])
    also have "ingest_loop L fs ds = ingest_loop L (f # fs) []" using Inr by simp
    finally show ?thesis .
  qed
qed

lemma ingest_files_Cons:
  "ingest_files L (f # fs) = both (ingest_file L f) (ingest_files L fs)"
proof (cases "ingest_file L f")
  case (Inl e)
  then show ?thesis by (simp add: ingest_files_def both_def)
next
  case (Inr ds)
  then have "ingest_files L (f # fs) = ingest_loop L fs ds" by (simp add: ingest_files_def)
  also have "\<dots> = both (Inr ds) (ingest_loop L fs [])" by (rule ingest_loop_acc)
  finally show ?thesis using Inr by (simp add: ingest_files_def)
qed

lemma both_assoc: "both (both r s) t = both r (both s t)"
  by (simp add: both_def split: sum.splits)

lemma ingest_files_append:
  "ingest_files L (xs @ ys) = both (ingest_files L xs) (ingest_files L ys)"
proof (induction xs)
  case Nil
  show ?case by (simp add: ingest_files_def both_def split: sum.splits)
next
  case (Cons x xs)
  then show ?case by (simp add: ingest_files_Cons both_assoc)
qed

lemma ingest_files_all_ok:
  "map (ingest_file L) fs = map Inr dss \<Longrightarrow> ingest_files L fs = Inr (concat dss)"
proof (induction fs arbitrary: dss)
  case Nil
  then show ?case by (simp add: ingest_files_def)
next
  case (Cons f fs)
  then obtain ds rest where d: "dss = ds # rest" "ingest_file L f = Inr ds"
    "map (ingest_file L) fs = map Inr rest"
    by (cases dss) auto
  from Cons.IH [OF d(3)] d show ?case by (simp add: ingest_files_Cons both_def)
qed

text \<open>
  Claim C9: \<open>ingest_files\<close> is the list homomorphism of \<open>ingest_file\<close>: the empty list
  gives no documents, a single file gives what \<open>ingest_file\<close> gives, and a list put
  together from two gives the documents of the first followed by those of the second
  (the exception of the first file that raises, if one does). So when every file is
  ingested, the result is the concatenation, in input order, of the documents of each.
\<close>

theorem ingest_files_homomorphism:
  "ingest_files L [] = Inr []
   \<and> ingest_files L [f] = ingest_file L f
   \<and> ingest_files L (xs @ ys) = both (ingest_files L xs) (ingest_files L ys)
   \<and> (map (ingest_file L) fs = map Inr dss \<longrightarrow> ingest_files L fs = Inr (concat dss))"
proof -
  have a: "ingest_files L [] = Inr []" by (simp add: ingest_files_def)
  have b: "ingest_files L [f] = ingest_file L f"
    by (simp add: ingest_files_Cons a both_def split: sum.splits)
  from a b ingest_files_append ingest_files_all_ok show ?thesis by blast
qed

theorem ingest_files_homomorphism_witness:
  "ingest_files demo_loaders
     [\<lparr> name = ''a.pdf'', body = ''one'' \<rparr>, \<lparr> name = ''b.CSV'', body = ''two'' \<rparr>] =
   Inr [\<lparr> page_content = ''one'',
           metadata = [(''source'', PStr ''a.pdf''), (''chunk'', PInt 1), (''type'', PStr ''pdf'')] \<rparr>,
        \<lparr> page_content = ''two'',
           metadata = [(''source'', PStr ''b.CSV''), (''chunk'', PInt 1), (''type'', PStr ''csv'')] \<rparr>]"
proof -
  have m: "map (ingest_file demo_loaders)
      [\<lparr> name = ''a.pdf'', body = ''one'' \<rparr>, \<lparr> name = ''b.CSV'', body = ''two'' \<rparr>] =
    map Inr
      [[\<lparr> page_content = ''one'',
           metadata = [(''source'', PStr ''a.pdf''), (''chunk'', PInt 1), (''type'', PStr ''pdf'')] \<rparr>],
       [\<lparr> page_content = ''two'',
           metadata = [(''source'', PStr ''b.CSV''), (''chunk'', PInt 1), (''type'', PStr ''csv'')] \<rparr>]]"
    by (simp add: ingest_file_def splitext_def rfind_def splitext_loop.simps lower_def
        lower_char_def LOADER_MAP_def demo_loaders_def one_chunk_def)
  from ingest_files_homomorphism [where L = demo_loaders
      and f = "\<lparr> name = ''a.pdf'', body = ''one'' \<rparr>" and xs = "[]" and ys = "[]"
      and fs = "[\<lparr> name = ''a.pdf'', body = ''one'' \<rparr>, \<lparr> name = ''b.CSV'', body = ''two'' \<rparr>]"
      and dss = "[[\<lparr> page_content = ''one'',
           metadata = [(''source'', PStr ''a.pdf''), (''chunk'', PInt 1), (''type'', PStr ''pdf'')] \<rparr>],
       [\<lparr> page_content = ''two'',
           metadata = [(''source'', PStr ''b.CSV''), (''chunk'', PInt 1), (''type'', PStr ''csv'')] \<rparr>]]"] m
  show ?thesis by simp
qed

section \<open>Properties of record ids\<close>

lemma first_marker:
  assumes "c \<notin> set a" "c \<notin> set b" "a @ c # x = b @ c # y"
  shows "a = b"
proof -
  have "takeWhile (\<lambda>z. z \<noteq> c) (a @ c # x) = a"
    using assms(1) by (induction a) auto
  moreover have "takeWhile (\<lambda>z. z \<noteq> c) (b @ c # y) = b"
    using assms(2) by (induction b) auto
  ultimately show ?thesis using assms(3) by simp
qed

lemma str_nat_no_underscore: "CHR ''_'' \<notin> set (str_nat n)"
proof
  assume "CHR ''_'' \<in> set (str_nat n)"
  with str_nat_numeric have "numeric_char CHR ''_''" by blast
  then show False by (simp add: numeric_char_def)
qed

lemma doc_id_index: "doc_id h i d = doc_id h j d' \<Longrightarrow> i = j"
proof -
  assume "doc_id h i d = doc_id h j d'"
  then have "str_nat i @ CHR ''_'' # str_int (h (page_content d) mod 100000) =
             str_nat j @ CHR ''_'' # str_int (h (page_content d') mod 100000)"
    by (simp add: doc_id_def str_int_def)
  then have "str_nat i = str_nat j"
    by (rule first_marker [OF str_nat_no_underscore str_nat_no_underscore])
  then show "i = j" by (rule str_nat_inj)
qed

lemma distinct_doc_ids: "distinct (doc_ids h docs)"
proof -
  have "inj_on (\<lambda>(i, doc). doc_id h i doc) (set (enumerate 0 docs))"
  proof (rule inj_onI)
    fix p q
    assume p: "p \<in> set (enumerate 0 docs)" and q: "q \<in> set (enumerate 0 docs)"
      and e: "(case p of (i, doc) \<Rightarrow> doc_id h i doc) = (case q of (i, doc) \<Rightarrow> doc_id h i doc)"
    from e have "fst p = fst q" by (auto simp: split_beta dest: doc_id_index)
    with p q show "p = q" by (auto simp: in_set_enumerate_eq prod_eq_iff)
  qed
  then show ?thesis by (simp add: doc_ids_def distinct_map distinct_enumerate)
qed

lemma doc_ids_nth: "i < length docs \<Longrightarrow> doc_ids h docs ! i = doc_id h i (docs ! i)"
  by (simp add: doc_ids_def nth_enumerate_eq)

text \<open>
  Claim C5, as the code has it: within one call of \<open>add_documents\<close> the id of the
  record at position \<open>i\<close> is \<open>doc_\<close>, the position, an underscore and the hash of the
  content modulo 100000, a function of the content and of the position in that call;
  and the ids of one call are pairwise different, whatever the hash and across the
  batches of the call.
\<close>

theorem record_ids_within_call:
  "length (doc_ids hash docs) = length docs
   \<and> (i < length docs \<longrightarrow>
        doc_ids hash docs ! i =
          ''doc_'' @ str_int (int i) @ ''_''
            @ str_int (hash (page_content (docs ! i)) mod 100000))
   \<and> distinct (doc_ids hash docs)"
  by (simp add: doc_ids_nth distinct_doc_ids) (simp add: doc_ids_def doc_id_def)

theorem record_ids_within_call_witness:
  "doc_ids length_hash [sky1, sky2] = [''doc_0_16'', ''doc_1_17'']"
proof -
  have a: "str_nat 0 = ''0''" "str_nat 1 = ''1''" "str_nat (Suc 0) = ''1''" "str_nat 16 = ''16''" "str_nat 17 = ''17''"
    by (simp_all add: str_nat.simps digit_char_def)
  have pc: "length_hash (page_content sky1) = 16" "length_hash (page_content sky2) = 17"
    by (simp_all add: length_hash_def sky1_def sky2_def)
  from record_ids_within_call [of length_hash "[sky1, sky2]" 0]
  have x: "doc_ids length_hash [sky1, sky2] ! 0 = ''doc_0_16''"
    by (simp add: pc str_int_def a)
  from record_ids_within_call [of length_hash "[sky1, sky2]" 1]
  have y: "doc_ids length_hash [sky1, sky2] ! 1 = ''doc_1_17''"
    by (simp add: pc str_int_def a)
  from record_ids_within_call [of length_hash "[sky1, sky2]" 0]
  have z: "length (doc_ids length_hash [sky1, sky2]) = 2" by simp
  show ?thesis
  proof (rule nth_equalityI)
    show "length (doc_ids length_hash [sky1, sky2]) = length [''doc_0_16'', ''doc_1_17'']"
      using z by simp
  next
    fix i assume "i < length (doc_ids length_hash [sky1, sky2])"
    with z have "i = 0 \<or> i = 1" by auto
    with x y show "doc_ids length_hash [sky1, sky2] ! i = [''doc_0_16'', ''doc_1_17''] ! i"
      by auto
  qed
qed

text \<open>
  As stated, C5 has the ids unique across insert calls too. The position restarts at 0
  in every call, so a chunk inserted again at the same position gets the id it had:
  a second call with the first chunk of an earlier call repeats the id \<open>doc_0_16\<close>.
\<close>

theorem record_ids_collide_across_calls:
  "\<not> distinct (doc_ids length_hash [sky1, sky2] @ doc_ids length_hash [sky1])"
  by (simp add: doc_ids_def doc_id_def enumerate_eq_zip upt_rec)

section \<open>Properties of the reference collection\<close>

lemma store_simps:
  "db_connect (index_store sc cap lk) s = None"
  "db_count (index_store sc cap lk) s = Inr (int (length s))"
  "db_get (index_store sc cap lk) s = Inr (map rec_id s)"
  "db_delete (index_store sc cap lk) s ids =
     (if lk then (Some ''locked'', s) else (None, filter (\<lambda>r. rec_id r \<notin> set ids) s))"
  "db_add (index_store sc cap lk) s ids texts metas =
     (if length s + length ids > cap then (Some ''storage full'', s)
      else (None, foldl upsert s (make_records ids texts metas)))"
  "db_query (index_store sc cap lk) s q n =
     (if n \<le> 0 then Inl n_results_error
      else Inr \<lparr> documents = [map rec_text (take (nat n) (ranked sc q s))],
                 metadatas = Some [map rec_meta (take (nat n) (ranked sc q s))] \<rparr>)"
  by (simp_all add: index_store_def Let_def)

section \<open>Properties of insert and clear\<close>

lemma add_batches_commit:
  "add_batches B s ids texts metas (100 * j) =
     commit_batches B s
       (map (\<lambda>j. batch_at ids texts metas (100 * j)) [j..<(length texts + 99) div 100])"
proof (induction "(length texts + 99) div 100 - j" arbitrary: j s)
  case 0
  then have "\<not> 100 * j < length texts" by arith
  moreover from 0 have "[j..<(length texts + 99) div 100] = []" by simp
  ultimately show ?case by (simp add: add_batches.simps [of B s ids texts metas "100 * j"])
next
  case (Suc n)
  then have lt: "j < (length texts + 99) div 100" by arith
  then have lt': "100 * j < length texts" by arith
  have upt: "[j..<(length texts + 99) div 100] = j # [Suc j..<(length texts + 99) div 100]"
    using lt by (rule upt_conv_Cons)
  have n: "n = (length texts + 99) div 100 - Suc j" using Suc(2) by arith
  have step: "100 * j + 100 = 100 * Suc j" by simp
  have ih: "add_batches B s' ids texts metas (100 * j + 100) =
      commit_batches B s'
        (map (\<lambda>j. batch_at ids texts metas (100 * j)) [Suc j..<(length texts + 99) div 100])"
    for s'
    unfolding step by (rule Suc(1) [OF n])
  obtain r s1 where a: "db_add B s (py_slice ids (100 * j) (100 * j + 100))
      (py_slice texts (100 * j) (100 * j + 100)) (py_slice metas (100 * j) (100 * j + 100)) = (r, s1)"
    by (cases "db_add B s (py_slice ids (100 * j) (100 * j + 100))
      (py_slice texts (100 * j) (100 * j + 100)) (py_slice metas (100 * j) (100 * j + 100))")
  have l: "add_batches B s ids texts metas (100 * j) =
      (case r of Some e \<Rightarrow> (Some e, s1) | None \<Rightarrow> add_batches B s1 ids texts metas (100 * j + 100))"
    by (subst add_batches.simps) (simp add: lt' a Let_def split: option.splits)
  have r: "commit_batches B s
       (map (\<lambda>j. batch_at ids texts metas (100 * j)) (j # [Suc j..<(length texts + 99) div 100])) =
      (case r of Some e \<Rightarrow> (Some e, s1)
       | None \<Rightarrow> commit_batches B s1
           (map (\<lambda>j. batch_at ids texts metas (100 * j)) [Suc j..<(length texts + 99) div 100]))"
    by (simp add: batch_at_def a split: option.splits)
  show ?case unfolding upt l r by (simp add: ih split: option.splits)
qed

lemma add_documents_commit:
  "db_connect B s = None \<Longrightarrow>
   add_documents B hash s docs =
     commit_batches B s (batches (doc_ids hash docs) (map page_content docs) (map metadata docs))"
  using add_batches_commit [of B s "doc_ids hash docs" "map page_content docs" "map metadata docs" 0]
  by (simp add: add_documents_def batches_def Let_def)

lemma commit_batches_append:
  "commit_batches B s bs = (None, s') \<Longrightarrow>
   commit_batches B s (bs @ rest) = commit_batches B s' rest"
proof (induction bs arbitrary: s)
  case Nil
  then show ?case by simp
next
  case (Cons b bs)
  obtain i t m where b: "b = (i, t, m)" by (cases b)
  obtain r s1 where a: "db_add B s i t m = (r, s1)" by (cases "db_add B s i t m")
  show ?case
  proof (cases r)
    case None
    with Cons.prems a b have "commit_batches B s1 bs = (None, s')" by simp
    from Cons.IH [OF this] None a b show ?thesis by simp
  next
    case (Some e)
    with Cons.prems a b show ?thesis by simp
  qed
qed

lemma commit_batches_fail:
  "commit_batches B s bs = (None, s') \<Longrightarrow> db_add B s' i t m = (Some e, s'') \<Longrightarrow>
   commit_batches B s (bs @ (i, t, m) # rest) = (Some e, s'')"
  by (simp add: commit_batches_append)

lemma concat_slices: "concat (map (\<lambda>j. py_slice xs (n * j) (n * j + n)) [0..<m]) = take (n * m) xs"
proof (induction m)
  case 0
  show ?case by simp
next
  case (Suc m)
  have "take (n * m + n) xs = take (n * m) xs @ take n (drop (n * m) xs)"
    by (rule take_add)
  with Suc show ?case by (simp add: py_slice_def add.commute)
qed

lemma batches_cover:
  "concat (map (\<lambda>b. fst (snd b)) (batches ids texts metas)) = texts"
proof -
  have "concat (map (\<lambda>b. fst (snd b)) (batches ids texts metas)) =
      concat (map (\<lambda>j. py_slice texts (100 * j) (100 * j + 100)) [0..<(length texts + 99) div 100])"
    by (simp add: batches_def batch_at_def comp_def)
  also have "\<dots> = take (100 * ((length texts + 99) div 100)) texts" by (rule concat_slices)
  also have "\<dots> = texts" by simp
  finally show ?thesis .
qed

lemma clear_never_raises: "fst (clear B s) = None"
  by (simp add: clear_def split: prod.splits option.splits)

lemma upsert_fresh:
  "rec_id r \<notin> rec_id ` set s \<Longrightarrow> upsert s r = s @ [r]"
  by (simp add: upsert_def)

lemma foldl_upsert_fresh:
  "distinct (map rec_id rs) \<Longrightarrow> rec_id ` set rs \<inter> rec_id ` set s = {} \<Longrightarrow>
   foldl upsert s rs = s @ rs"
proof (induction rs arbitrary: s)
  case Nil
  show ?case by simp
next
  case (Cons r rs)
  from Cons.prems have fresh: "rec_id r \<notin> rec_id ` set s" by auto
  from Cons.prems have d: "distinct (map rec_id rs)" by simp
  from Cons.prems have "rec_id ` set rs \<inter> rec_id ` set (s @ [r]) = {}" by auto
  from Cons.IH [OF d this] fresh show ?case by (simp add: upsert_fresh)
qed

lemma rec_id_make_records:
  "length texts = length ids \<Longrightarrow> length metas = length ids \<Longrightarrow>
   map rec_id (make_records ids texts metas) = ids"
proof (induction ids arbitrary: texts metas)
  case Nil
  show ?case by simp
next
  case (Cons i ids)
  then obtain t ts m ms where "texts = t # ts" "metas = m # ms"
    by (cases texts; cases metas) auto
  with Cons show ?case by simp
qed

lemma length_doc_ids: "length (doc_ids h docs) = length docs"
  by (simp add: doc_ids_def)

text \<open>
  Claim C4, as the code has it: \<open>add_documents\<close> commits the batches of the call one
  after the other, and the batches cover the texts in order. When the \<open>add\<close> of a
  batch raises after earlier batches were committed, the call ends there: what it
  raises is the exception of the collection as it is, with no count of committed
  records, and the state is the one the failing \<open>add\<close> left, with the committed
  batches in it and no rollback. \<open>clear\<close> never raises: an exception of the collection
  inside it is discarded, and the state is whatever the interrupted body left.
\<close>

theorem insert_commits_and_clear_swallows:
  "(db_connect B s = None \<longrightarrow>
      add_documents B hash s docs =
        commit_batches B s
          (batches (doc_ids hash docs) (map page_content docs) (map metadata docs)))
   \<and> (commit_batches B s bs = (None, s') \<and> db_add B s' i t m = (Some e, s'') \<longrightarrow>
        commit_batches B s (bs @ (i, t, m) # rest) = (Some e, s''))
   \<and> concat (map (\<lambda>b. fst (snd b)) (batches ids texts metas)) = texts
   \<and> fst (clear B s) = None
   \<and> snd (clear B s) = snd (clear_try B s)"
proof -
  have a: "db_connect B s = None \<longrightarrow>
      add_documents B hash s docs =
        commit_batches B s
          (batches (doc_ids hash docs) (map page_content docs) (map metadata docs))"
    by (simp add: add_documents_commit)
  have b: "commit_batches B s bs = (None, s') \<and> db_add B s' i t m = (Some e, s'') \<longrightarrow>
        commit_batches B s (bs @ (i, t, m) # rest) = (Some e, s'')"
    by (simp add: commit_batches_fail)
  have c: "snd (clear B s) = snd (clear_try B s)"
    by (simp add: clear_def split: prod.splits option.splits)
  from a b c batches_cover [of ids texts metas] clear_never_raises [of B s] show ?thesis
    by (intro conjI)
qed

theorem insert_commits_and_clear_swallows_witness:
  "add_documents (index_store prefix_score 100 False) length_hash [] many_docs =
     (Some ''storage full'',
      make_records (take 100 (doc_ids length_hash many_docs))
        (take 100 (map page_content many_docs)) (take 100 (map metadata many_docs)))
   \<and> length (snd (add_documents (index_store prefix_score 100 False) length_hash [] many_docs))
       = 100
   \<and> clear (index_store prefix_score 10 True) three_records = (None, three_records)"
proof -
  let ?B = "index_store prefix_score 100 False"
  let ?ids = "doc_ids length_hash many_docs"
  let ?texts = "map page_content many_docs"
  let ?metas = "map metadata many_docs"
  let ?first = "make_records (take 100 ?ids) (take 100 ?texts) (take 100 ?metas)"
  have lm: "length many_docs = 101" by (simp add: many_docs_def)
  have len: "length ?ids = 101" "length ?texts = 101" "length ?metas = 101"
    by (simp_all add: lm length_doc_ids)
  have bs: "batches ?ids ?texts ?metas =
      [(take 100 ?ids, take 100 ?texts, take 100 ?metas)]
      @ (drop 100 ?ids, drop 100 ?texts, drop 100 ?metas) # []"
  proof -
    have "(length ?texts + 99) div 100 = 2" by (simp add: lm)
    moreover have "[0..<2] = [0, 1]" by (simp add: upt_rec)
    ultimately show ?thesis by (simp add: batches_def batch_at_def py_slice_def lm length_doc_ids)
  qed
  have ids_first: "map rec_id ?first = take 100 ?ids"
    by (rule rec_id_make_records) (simp_all add: lm length_doc_ids)
  have "distinct (take 100 ?ids)" by (rule distinct_take) (rule distinct_doc_ids)
  with ids_first have "foldl upsert [] ?first = [] @ ?first"
    by (intro foldl_upsert_fresh) simp_all
  then have stored: "foldl upsert [] ?first = ?first" by simp
  have "length ?first = length (take 100 ?ids)"
    using ids_first by (metis length_map)
  then have lf: "length ?first = 100" by (simp add: lm length_doc_ids)
  have first_ok: "commit_batches ?B [] [(take 100 ?ids, take 100 ?texts, take 100 ?metas)] =
      (None, ?first)"
    by (simp add: store_simps lm length_doc_ids stored)
  have second_fails: "db_add ?B ?first (drop 100 ?ids) (drop 100 ?texts) (drop 100 ?metas) =
      (Some ''storage full'', ?first)"
    by (simp add: store_simps lm length_doc_ids lf)
  from insert_commits_and_clear_swallows
    [where B = ?B and s = "[]" and hash = length_hash and docs = many_docs
      and bs = "[(take 100 ?ids, take 100 ?texts, take 100 ?metas)]" and s' = ?first
      and i = "drop 100 ?ids" and t = "drop 100 ?texts" and m = "drop 100 ?metas"
      and e = "''storage full''" and s'' = ?first and rest = "[]"
      and ids = ?ids and texts = ?texts and metas = ?metas]
    first_ok second_fails
  have x: "add_documents ?B length_hash [] many_docs = (Some ''storage full'', ?first)"
    by (simp add: store_simps(1) bs)
  have ct: "clear_try (index_store prefix_score 10 True) three_records =
      (Some ''locked'', three_records)"
    by (simp add: clear_try_def store_simps three_records_def)
  from insert_commits_and_clear_swallows
    [where B = "index_store prefix_score 10 True" and s = three_records] ct
  have z: "clear (index_store prefix_score 10 True) three_records = (None, three_records)"
    by (simp add: prod_eq_iff)
  from x lf z show ?thesis by simp
qed

text \<open>
  As stated, C4 has a storage error during \<open>clear\<close> reach the caller, and the error
  of a failed insert carry the count of committed records. On a locked store the
  \<open>delete\<close> inside \<open>clear\<close> raises, yet \<open>clear\<close> returns normally with every record
  still stored; and an insert into a full store raises the bare exception of the store.
\<close>

theorem clear_swallows_storage_error:
  "fst (db_delete (index_store prefix_score 10 True) three_records (map rec_id three_records))
     = Some ''locked''
   \<and> clear (index_store prefix_score 10 True) three_records = (None, three_records)
   \<and> fst (add_documents (index_store prefix_score 0 False) length_hash [] [sky1]) =
       Some ''storage full''"
  by (simp add: clear_def clear_try_def add_documents_def store_simps three_records_def
      add_batches.simps py_slice_def Let_def doc_ids_def)

section \<open>Properties of search\<close>

lemma search_loop_collect:
  assumes "metadatas results = Some (ms # others)" "length ms = length ts"
    "\<forall>i \<in> set is. i < length ts"
  shows "search_loop results ts is acc =
     Inr (acc @ map (\<lambda>i. \<lparr> page_content = ts ! i, metadata = ms ! i \<rparr>) is)"
  using assms(3)
proof (induction "is" arbitrary: acc)
  case Nil
  show ?case by simp
next
  case (Cons i rest)
  then have i: "i < length ts" and r: "\<forall>i \<in> set rest. i < length ts" by simp_all
  show ?case using i assms(1,2) Cons.IH [OF r] by (simp add: result_metadata_def)
qed

lemma search_forwarded:
  assumes "db_connect B s = None" "db_count B s = Inr c" "c \<noteq> 0"
    "db_query B s q (min k c) = Inr \<lparr> documents = [map rec_text hits], metadatas = Some [map rec_meta hits] \<rparr>"
  shows "search B s q k = Inr (map record_doc hits)"
proof -
  let ?res = "\<lparr> documents = [map rec_text hits], metadatas = Some [map rec_meta hits] \<rparr>"
  have "search_loop ?res (map rec_text hits) [0..<length (map rec_text hits)] [] =
      Inr ([] @ map (\<lambda>i. \<lparr> page_content = map rec_text hits ! i, metadata = map rec_meta hits ! i \<rparr>)
         [0..<length (map rec_text hits)])"
    by (rule search_loop_collect [where others = "[]"]) simp_all
  also have "map (\<lambda>i. \<lparr> page_content = map rec_text hits ! i, metadata = map rec_meta hits ! i \<rparr>)
         [0..<length (map rec_text hits)] = map record_doc hits"
    by (rule nth_equalityI) (simp_all add: record_doc_def)
  finally have loop: "search_loop ?res (map rec_text hits) [0..<length (map rec_text hits)] [] =
      Inr (map record_doc hits)" by simp
  show ?thesis using assms loop by (simp add: search_def Let_def)
qed

lemma search_empty_index:
  "search (index_store sc cap lk) [] q k = Inr []"
  by (simp add: search_def store_simps)

lemma search_index_store:
  assumes "1 \<le> k"
  shows "search (index_store sc cap lk) recs q k =
     Inr (map record_doc (take (nat (min k (int (length recs)))) (ranked sc q recs)))"
proof (cases "recs = []")
  case True
  then show ?thesis by (simp add: search_empty_index ranked_def)
next
  case False
  then have c: "int (length recs) \<noteq> 0" by simp
  from False have "0 < int (length recs)" by simp
  with assms have pos: "\<not> min k (int (length recs)) \<le> 0" by arith
  have qry: "db_query (index_store sc cap lk) recs q (min k (int (length recs))) =
      Inr \<lparr> documents = [map rec_text (take (nat (min k (int (length recs)))) (ranked sc q recs))],
            metadatas = Some [map rec_meta (take (nat (min k (int (length recs)))) (ranked sc q recs))] \<rparr>"
    using pos by (simp only: store_simps(6) if_False)
  show ?thesis
    by (rule search_forwarded [OF store_simps(1) store_simps(2) c qry])
qed

lemma search_not_positive:
  assumes "recs \<noteq> []" "k \<le> 0"
  shows "search (index_store sc cap lk) recs q k = Inl (Storage n_results_error)"
proof -
  from assms have "min k (int (length recs)) \<le> 0" by simp
  then show ?thesis using assms(1) by (simp add: search_def store_simps Let_def)
qed

lemma ranked_descending:
  "sorted_wrt (\<lambda>a b. sc q (rec_text b) \<le> sc q (rec_text a)) (ranked sc q recs)"
proof -
  have "sorted (map (\<lambda>r. - sc q (rec_text r)) (ranked sc q recs))"
    by (simp add: ranked_def)
  then show ?thesis by (simp add: sorted_map)
qed

lemma ranked_stable:
  "filter (\<lambda>r. sc q (rec_text r) = v) (ranked sc q recs) =
   filter (\<lambda>r. sc q (rec_text r) = v) recs"
proof -
  have "filter (\<lambda>r. - sc q (rec_text r) = - v) (sort_key (\<lambda>r. - sc q (rec_text r)) recs) =
        filter (\<lambda>r. - sc q (rec_text r) = - v) recs"
    by (rule sort_key_stable)
  then show ?thesis by (simp add: ranked_def)
qed

lemma ranked_perm: "set (ranked sc q recs) = set recs" "length (ranked sc q recs) = length recs"
  by (simp_all add: ranked_def)

text \<open>
  Claim C1, as the code has it. For every collection: when the count is zero \<open>search\<close>
  returns the empty list for every \<open>k\<close>, without a query and without raising;
  otherwise it asks the collection for \<open>min k count\<close> results and returns what it gets,
  in the order it gets it, or raises what the collection raises. Over the reference
  collection: for every \<open>k\<close> of at least 1 the result has exactly \<open>min k n\<close>
  documents, the first of the ranking of the \<open>n\<close> stored records; the ranking is by
  descending score, keeps records of equal score in insertion order, and is a
  rearrangement of the stored records. For \<open>k\<close> of at most 0 on an index that is not
  empty, the collection rejects the request and \<open>search\<close> raises.
\<close>

theorem search_top_k:
  "search (index_store score cap locked) [] q k = Inr []
   \<and> (1 \<le> k \<longrightarrow>
        (\<exists>docs. search (index_store score cap locked) recs q k = Inr docs
           \<and> int (length docs) = min k (int (length recs))
           \<and> docs = map record_doc (take (length docs) (ranked score q recs))))
   \<and> (recs \<noteq> [] \<and> k \<le> 0 \<longrightarrow>
        search (index_store score cap locked) recs q k = Inl (Storage n_results_error))
   \<and> sorted_wrt (\<lambda>a b. score q (rec_text b) \<le> score q (rec_text a)) (ranked score q recs)
   \<and> (\<forall>v. filter (\<lambda>r. score q (rec_text r) = v) (ranked score q recs) =
            filter (\<lambda>r. score q (rec_text r) = v) recs)
   \<and> set (ranked score q recs) = set recs
   \<and> length (ranked score q recs) = length recs
   \<and> (db_connect B s = None \<and> db_count B s = Inr 0 \<longrightarrow> search B s q k = Inr [])
   \<and> (db_connect B s = None \<and> db_count B s = Inr c \<and> c \<noteq> 0
        \<and> db_query B s q (min k c) =
            Inr \<lparr> documents = [map rec_text hits], metadatas = Some [map rec_meta hits] \<rparr>
        \<longrightarrow> search B s q k = Inr (map record_doc hits))
   \<and> (db_connect B s = None \<and> db_count B s = Inr c \<and> c \<noteq> 0
        \<and> db_query B s q (min k c) = Inl err
        \<longrightarrow> search B s q k = Inl (Storage err))"
proof -
  have b: "1 \<le> k \<longrightarrow>
        (\<exists>docs. search (index_store score cap locked) recs q k = Inr docs
           \<and> int (length docs) = min k (int (length recs))
           \<and> docs = map record_doc (take (length docs) (ranked score q recs)))"
  proof
    assume k: "1 \<le> k"
    let ?docs = "map record_doc (take (nat (min k (int (length recs)))) (ranked score q recs))"
    have l: "length ?docs = nat (min k (int (length recs)))"
      by (simp add: ranked_perm)
    have "search (index_store score cap locked) recs q k = Inr ?docs"
      using k by (rule search_index_store)
    moreover have "int (length ?docs) = min k (int (length recs))" using k l by simp
    moreover have "?docs = map record_doc (take (length ?docs) (ranked score q recs))"
      unfolding l ..
    ultimately show "\<exists>docs. search (index_store score cap locked) recs q k = Inr docs
           \<and> int (length docs) = min k (int (length recs))
           \<and> docs = map record_doc (take (length docs) (ranked score q recs))"
      by blast
  qed
  have n: "recs \<noteq> [] \<and> k \<le> 0 \<longrightarrow>
        search (index_store score cap locked) recs q k = Inl (Storage n_results_error)"
    by (simp add: search_not_positive)
  have e: "db_connect B s = None \<and> db_count B s = Inr 0 \<longrightarrow> search B s q k = Inr []"
    by (simp add: search_def)
  have f: "db_connect B s = None \<and> db_count B s = Inr c \<and> c \<noteq> 0
        \<and> db_query B s q (min k c) =
            Inr \<lparr> documents = [map rec_text hits], metadatas = Some [map rec_meta hits] \<rparr>
        \<longrightarrow> search B s q k = Inr (map record_doc hits)"
    using search_forwarded [of B s c q k hits] by blast
  have g: "db_connect B s = None \<and> db_count B s = Inr c \<and> c \<noteq> 0
        \<and> db_query B s q (min k c) = Inl err
        \<longrightarrow> search B s q k = Inl (Storage err)"
    by (simp add: search_def Let_def)
  from search_empty_index [of score cap locked q k] b n ranked_descending [of score q recs]
    ranked_stable [of score q _ recs] ranked_perm [of score q recs] e f g
  show ?thesis by (intro conjI allI)
qed

theorem search_top_k_witness:
  "search (index_store prefix_score 10 False) three_records ''The'' 2 =
     Inr [\<lparr> page_content = ''The sky is blue.'', metadata = [(''source'', PStr ''sky.pdf'')] \<rparr>,
          \<lparr> page_content = ''The sea is blue.'', metadata = [(''source'', PStr ''sea.pdf'')] \<rparr>]
   \<and> search (index_store prefix_score 10 False) three_records ''The'' 5 =
     Inr [\<lparr> page_content = ''The sky is blue.'', metadata = [(''source'', PStr ''sky.pdf'')] \<rparr>,
          \<lparr> page_content = ''The sea is blue.'', metadata = [(''source'', PStr ''sea.pdf'')] \<rparr>,
          \<lparr> page_content = ''Clouds are white.'', metadata = [(''source'', PStr ''sky.pdf'')] \<rparr>]
   \<and> search (index_store prefix_score 10 False) three_records ''The'' (- 1) =
     Inl (Storage n_results_error)"
proof -
  have r: "ranked prefix_score ''The'' three_records =
     [three_records ! 0, three_records ! 2, three_records ! 1]"
    by (simp add: ranked_def prefix_score_def three_records_def)
  have ne: "three_records \<noteq> []" by (simp add: three_records_def)
  from search_top_k [where score = prefix_score and cap = 10 and locked = False
      and q = "''The''" and k = 2 and recs = three_records
      and B = "index_store prefix_score 10 False" and s = "[]" and c = 0 and hits = "[]"
      and err = "[]"]
  obtain docs where d: "search (index_store prefix_score 10 False) three_records ''The'' 2 = Inr docs"
    "int (length docs) = min 2 (int (length three_records))"
    "docs = map record_doc (take (length docs) (ranked prefix_score ''The'' three_records))"
    by auto
  from d(2) have "length docs = 2" by (simp add: three_records_def)
  with d(3) r have "docs = [record_doc (three_records ! 0), record_doc (three_records ! 2)]"
    by (simp add: numeral_2_eq_2)
  with d(1) have two: "search (index_store prefix_score 10 False) three_records ''The'' 2 =
     Inr [\<lparr> page_content = ''The sky is blue.'', metadata = [(''source'', PStr ''sky.pdf'')] \<rparr>,
          \<lparr> page_content = ''The sea is blue.'', metadata = [(''source'', PStr ''sea.pdf'')] \<rparr>]"
    by (simp add: three_records_def record_doc_def)
  from search_top_k [where score = prefix_score and cap = 10 and locked = False
      and q = "''The''" and k = 5 and recs = three_records
      and B = "index_store prefix_score 10 False" and s = "[]" and c = 0 and hits = "[]"
      and err = "[]"]
  obtain docs5 where d5: "search (index_store prefix_score 10 False) three_records ''The'' 5 = Inr docs5"
    "int (length docs5) = min 5 (int (length three_records))"
    "docs5 = map record_doc (take (length docs5) (ranked prefix_score ''The'' three_records))"
    by auto
  from d5(2) have "length docs5 = 3" by (simp add: three_records_def)
  with d5(3) r have "docs5 = [record_doc (three_records ! 0), record_doc (three_records ! 2),
      record_doc (three_records ! 1)]"
    by (simp add: numeral_3_eq_3)
  with d5(1) have five: "search (index_store prefix_score 10 False) three_records ''The'' 5 =
     Inr [\<lparr> page_content = ''The sky is blue.'', metadata = [(''source'', PStr ''sky.pdf'')] \<rparr>,
          \<lparr> page_content = ''The sea is blue.'', metadata = [(''source'', PStr ''sea.pdf'')] \<rparr>,
          \<lparr> page_content = ''Clouds are white.'', metadata = [(''source'', PStr ''sky.pdf'')] \<rparr>]"
    by (simp add: three_records_def record_doc_def)
  from search_top_k [where score = prefix_score and cap = 10 and locked = False
      and q = "''The''" and k = "- 1" and recs = three_records
      and B = "index_store prefix_score 10 False" and s = "[]" and c = 0 and hits = "[]"
      and err = "[]"] ne
  have neg: "search (index_store prefix_score 10 False) three_records ''The'' (- 1) =
     Inl (Storage n_results_error)"
    by simp
  from two five neg show ?thesis by (intro conjI)
qed

text \<open>
  As stated, C1 speaks of every \<open>k\<close>. For \<open>k = 0\<close> on an index of three records
  \<open>min k n\<close> is 0, but \<open>search\<close> does not return an empty list: it hands 0 on as
  \<open>n_results\<close>, and the exception of the collection reaches the caller.
\<close>

theorem search_zero_k_raises:
  "search (index_store prefix_score 10 False) three_records ''The'' 0 =
     Inl (Storage n_results_error)
   \<and> min 0 (int (length three_records)) = 0"
  by (simp add: search_def store_simps three_records_def)

end
